theory Spec2Isabelle
  imports Complex_Main "HOL-Library.AList"
begin

section \<open>Data model\<close>

text \<open>
  The crawler keeps two Python dictionaries in \<open>ProxyManager\<close> (\<open>proxies\<close>: endpoint to
  last-used time, \<open>banned_proxies\<close>: endpoint to unban time) and one in \<open>RetryTracker\<close>
  (\<open>failed_searches\<close>: search value to the list of its failures). A Python dictionary
  iterates in insertion order and \<open>min\<close> over it depends on that order, so a dictionary is
  an association list: assigning to a present key keeps its position, assigning to an
  absent key appends (\<open>AList.update\<close>). A dictionary has no two equal keys.

  Time is what \<open>time.time()\<close> and \<open>datetime.now()\<close> read: seconds, a real number here (the
  source has floats). The clock is a field of the world; it moves when the program sleeps,
  and all readings inside one call of a method see the same instant.

  \<open>outside\<close> is everything beyond the process that a task can change (the remote service,
  the result files); its type is left open.
\<close>

type_synonym ('k, 'v) dict = "('k \<times> 'v) list"

datatype exn =
    ValueError string
  | TypeError string
  | RequestException string
  | JSONDecodeError string
  | OSError string

fun str_exn :: "exn \<Rightarrow> string" where
  "str_exn (ValueError m) = m"
| "str_exn (TypeError m) = m"
| "str_exn (RequestException m) = m"
| "str_exn (JSONDecodeError m) = m"
| "str_exn (OSError m) = m"

datatype level = INFO | WARNING | ERROR

text \<open>One constructor per logging call of the source, holding the values it formats.\<close>

datatype msg =
    NoProxiesLoadedFromFile
  | LoadedProxies nat string
  | ProxiesFileNotFound string
  | AttemptFailedRetryingIn nat real
  | NoAvailableProxiesRetryingIn real
  | UpdatedProxyUsage string
  | ProxyBannedUntil string real
  | AttemptFailedRetrying nat nat string
  | AllAttemptsFailed nat string
  | FailureHistory
  | FailureLine nat string real
  | KeysNotFound string
  | AccessKeysRequestFailed string string
  | SavedResults string string
  | NoProxiesLoadedExiting
  | UsingThreadPool nat

record 'e world =
  proxies :: "(string, real) dict"
  banned_proxies :: "(string, real) dict"
  clock :: real
  log :: "(level \<times> msg) list"
  outside :: 'e

definition logging :: "level \<Rightarrow> msg \<Rightarrow> 'e world \<Rightarrow> 'e world" where
  "logging lv m w = w\<lparr>log := log w @ [(lv, m)]\<rparr>"

definition time_sleep :: "real \<Rightarrow> 'e world \<Rightarrow> 'e world" where
  "time_sleep secs w = w\<lparr>clock := clock w + secs\<rparr>"

text \<open>
  A dictionary comprehension \<open>{k: v for ...}\<close> assigns the pairs one after the other into
  an empty dictionary.
\<close>

definition dict_comp :: "('k \<times> 'v) list \<Rightarrow> ('k, 'v) dict" where
  "dict_comp kvs = foldl (\<lambda>d (k, v). AList.update k v d) [] kvs"

text \<open>
  \<open>min(d, key=d.get)\<close>: the keys are visited in order and the candidate is replaced only
  by a key whose value is strictly smaller, so the first of several minimal keys wins. On
  an empty dictionary \<open>min\<close> raises.
\<close>

fun min_from :: "'k \<times> real \<Rightarrow> ('k \<times> real) list \<Rightarrow> 'k \<times> real" where
  "min_from best [] = best"
| "min_from best (kv # rest) = min_from (if snd kv < snd best then kv else best) rest"

fun py_min_key :: "('k, real) dict \<Rightarrow> exn + 'k" where
  "py_min_key [] = Inl (ValueError ''min() arg is an empty sequence'')"
| "py_min_key (kv # rest) = Inr (fst (min_from kv rest))"

section \<open>ProxyManager (proxy\_manager.py)\<close>

definition ProxyManager_init :: "'e world \<Rightarrow> 'e world" where
  "ProxyManager_init w = w\<lparr>proxies := [], banned_proxies := []\<rparr>"

text \<open>
  \<open>str.strip()\<close> removes the white space at both ends. The endpoints file is taken to be
  ASCII text; these are the ASCII characters for which \<open>str.isspace\<close> holds.
\<close>

definition isspace :: "char \<Rightarrow> bool" where
  "isspace c = (let n = (of_char c :: nat) in (9 \<le> n \<and> n \<le> 13) \<or> (28 \<le> n \<and> n \<le> 32))"

definition strip :: "string \<Rightarrow> string" where
  "strip s = rev (dropWhile isspace (rev (dropWhile isspace s)))"

text \<open>
  The file system maps a file name to the lines of the file, or to \<open>None\<close> when there is no
  such file (\<open>open\<close> raises \<open>FileNotFoundError\<close>).
\<close>

type_synonym filesystem = "string \<Rightarrow> string list option"

definition read_proxies :: "filesystem \<Rightarrow> string \<Rightarrow> 'e world \<Rightarrow> bool \<times> 'e world" where
  "read_proxies fs file_name w =
     (case fs file_name of
        None \<Rightarrow> (False, logging ERROR (ProxiesFileNotFound file_name) w)
      | Some f \<Rightarrow>
          (let w1 = w\<lparr>proxies := dict_comp (map (\<lambda>line. (strip line, 0)) (filter (\<lambda>line. strip line \<noteq> []) f))\<rparr>
           in if proxies w1 = [] then (False, logging ERROR NoProxiesLoadedFromFile w1)
              else (True, logging INFO (LoadedProxies (length (proxies w1)) file_name) w1)))"

definition get_dynamic_delay :: "'e world \<Rightarrow> real" where
  "get_dynamic_delay w =
     (if banned_proxies w = [] then 0
      else (let min_unban_time = min_list (map snd (banned_proxies w))
            in max 0 (min_unban_time - clock w)))"

definition max_tries :: nat where
  "max_tries = 3"

text \<open>
  The loop of \<open>dynamic_retry_decorator\<close>, from the value of \<open>tries\<close> it is entered with. A
  Python function whose loop ends without \<open>return\<close> returns \<open>None\<close>.
\<close>

function retry_loop ::
  "('e world \<Rightarrow> (exn + 'a) \<times> 'e world) \<Rightarrow> nat \<Rightarrow> 'e world \<Rightarrow> (exn + 'a option) \<times> 'e world" where
  "retry_loop func tries w =
     (if tries < max_tries then
        (case func w of
           (Inr r, w1) \<Rightarrow> (Inr (Some r), w1)
         | (Inl e, w1) \<Rightarrow>
             (if tries + 1 = max_tries then (Inl e, w1)
              else (let delay = get_dynamic_delay w1;
                        w2 = logging INFO (AttemptFailedRetryingIn (tries + 1) delay) w1;
                        w3 = time_sleep delay w2
                    in retry_loop func (tries + 1) w3)))
      else (Inr None, w))"
  by pat_completeness auto
termination
  by (relation "measure (\<lambda>(func, tries, w). max_tries - tries)") auto

declare retry_loop.simps [simp del]

definition dynamic_retry_decorator ::
  "('e world \<Rightarrow> (exn + 'a) \<times> 'e world) \<Rightarrow> 'e world \<Rightarrow> (exn + 'a option) \<times> 'e world" where
  "dynamic_retry_decorator func w = retry_loop func 0 w"

text \<open>
  The condition of the comprehension in \<open>get_proxy\<close>:
  \<open>proxy not in self.banned_proxies or time.time() > self.banned_proxies[proxy]\<close>.
\<close>

definition is_unbanned :: "'e world \<Rightarrow> string \<Rightarrow> bool" where
  "is_unbanned w proxy =
     (case map_of (banned_proxies w) proxy of
        None \<Rightarrow> True
      | Some until \<Rightarrow> clock w > until)"

definition available_proxies :: "'e world \<Rightarrow> (string, real) dict" where
  "available_proxies w =
     dict_comp (filter (\<lambda>(proxy, last_used). is_unbanned w proxy) (proxies w))"

type_synonym proxy_handle = "(string, string) dict"

text \<open>The body of \<open>get_proxy\<close>, which runs under the lock.\<close>

definition get_proxy_body :: "'e world \<Rightarrow> (exn + proxy_handle \<times> string) \<times> 'e world" where
  "get_proxy_body w =
     (let available = available_proxies w
      in if available = [] then
           (let delay = get_dynamic_delay w
            in (Inl (ValueError ''No available proxies, retrying...''),
                logging ERROR (NoAvailableProxiesRetryingIn delay) w))
         else (case py_min_key available of
                 Inl e \<Rightarrow> (Inl e, w)
               | Inr least_used_proxy \<Rightarrow>
                   (let w1 = w\<lparr>proxies := AList.update least_used_proxy (clock w) (proxies w)\<rparr>
                    in (Inr ([(''http'', ''http://'' @ least_used_proxy),
                              (''https'', ''http://'' @ least_used_proxy)],
                             least_used_proxy), w1))))"

definition get_proxy :: "'e world \<Rightarrow> (exn + (proxy_handle \<times> string) option) \<times> 'e world" where
  "get_proxy = dynamic_retry_decorator get_proxy_body"

definition update_proxy :: "string \<Rightarrow> 'e world \<Rightarrow> 'e world" where
  "update_proxy proxy w =
     (if proxy \<in> fst ` set (proxies w)
      then logging INFO (UpdatedProxyUsage proxy) (w\<lparr>proxies := AList.update proxy (clock w) (proxies w)\<rparr>)
      else w)"

definition ban_proxy :: "string \<Rightarrow> 'e world \<Rightarrow> 'e world" where
  "ban_proxy proxy w =
     (let ban_time = clock w + 180;
          w1 = w\<lparr>banned_proxies := AList.update proxy ban_time (banned_proxies w)\<rparr>
      in logging WARNING (ProxyBannedUntil proxy ban_time) w1)"

section \<open>RetryTracker and retry\_with\_tracking (scraper.py)\<close>

record failure =
  attempt :: nat
  timestamp :: real
  error :: string

type_synonym RetryTracker = "(string, failure list) dict"

text \<open>
  \<open>record_failure\<close> creates the empty list for a search value seen for the first time, then
  appends the entry to the list of that search value. \<open>now\<close> is the reading of
  \<open>datetime.now()\<close>.
\<close>

definition record_failure :: "string \<Rightarrow> nat \<Rightarrow> exn \<Rightarrow> real \<Rightarrow> RetryTracker \<Rightarrow> RetryTracker" where
  "record_failure search_value n e now failed_searches =
     (let fs1 = (if map_of failed_searches search_value = None
                 then AList.update search_value [] failed_searches
                 else failed_searches)
      in (case map_of fs1 search_value of
            None \<Rightarrow> fs1
          | Some entries \<Rightarrow>
              AList.update search_value
                (entries @ [\<lparr>attempt = n, timestamp = now, error = str_exn e\<rparr>]) fs1))"

definition get_failure_report :: "RetryTracker \<Rightarrow> RetryTracker" where
  "get_failure_report failed_searches = failed_searches"

text \<open>The failures recorded for one search value, none if it has no entry.\<close>

definition failures_of :: "RetryTracker \<Rightarrow> string \<Rightarrow> failure list" where
  "failures_of failed_searches search_value =
     (case map_of failed_searches search_value of None \<Rightarrow> [] | Some entries \<Rightarrow> entries)"

text \<open>What the last attempt logs before it re-raises: a header and one line per failure.\<close>

definition log_failure_history :: "nat \<Rightarrow> string \<Rightarrow> RetryTracker \<Rightarrow> 'e world \<Rightarrow> 'e world" where
  "log_failure_history tries search_value failed_searches w =
     (let w1 = logging ERROR (AllAttemptsFailed (tries + 1) search_value) w;
          w2 = logging ERROR FailureHistory w1
      in foldl (\<lambda>w' f. logging ERROR (FailureLine (attempt f) (error f) (timestamp f)) w') w2
           (failures_of failed_searches search_value))"

text \<open>
  The \<open>for attempt in range(tries + 1)\<close> loop of the wrapper, over the attempts that are
  left. The tracker belongs to the decorator; the wrapped function cannot reach it.
\<close>

fun for_attempts ::
  "nat \<Rightarrow> (string \<Rightarrow> 'e world \<Rightarrow> (exn + 'a) \<times> 'e world) \<Rightarrow> string \<Rightarrow> nat list \<Rightarrow>
   RetryTracker \<times> 'e world \<Rightarrow> (exn + 'a option) \<times> RetryTracker \<times> 'e world" where
  "for_attempts tries func search_value [] (tr, w) = (Inr None, tr, w)"
| "for_attempts tries func search_value (n # rest) (tr, w) =
     (case func search_value w of
        (Inr r, w1) \<Rightarrow> (Inr (Some r), tr, w1)
      | (Inl e, w1) \<Rightarrow>
          (let tr1 = record_failure search_value (n + 1) e (clock w1) tr
           in if n = tries then (Inl e, tr1, log_failure_history tries search_value tr1 w1)
              else for_attempts tries func search_value rest
                     (tr1, logging WARNING (AttemptFailedRetrying (n + 1) (tries + 1) search_value) w1)))"

definition retry_with_tracking ::
  "nat \<Rightarrow> (string \<Rightarrow> 'e world \<Rightarrow> (exn + 'a) \<times> 'e world) \<Rightarrow> string \<Rightarrow>
   RetryTracker \<times> 'e world \<Rightarrow> (exn + 'a option) \<times> RetryTracker \<times> 'e world" where
  "retry_with_tracking tries func search_value s =
     for_attempts tries func search_value [0..<tries + 1] s"

section \<open>The task body (scraper.py)\<close>

datatype json =
    JNull
  | JBool bool
  | JNum real
  | JStr string
  | JList "json list"
  | JDict "(string \<times> json) list"

fun isinstance_dict :: "json \<Rightarrow> bool" where
  "isinstance_dict (JDict kvs) = True"
| "isinstance_dict j = False"

text \<open>
  A response to the search request, as far as the program looks at it: the outcome of
  \<open>response.json()\<close>, which is the decoded value or the exception raised for a body that
  is not JSON.
\<close>

type_synonym response = "exn + json"

text \<open>
  The calls that leave the process: \<open>requests.get\<close> (returning \<open>response.text\<close>), the two
  \<open>re.search\<close> calls with their fixed patterns (returning group 1 of a match),
  \<open>requests.post\<close>, and writing the result file. They are parameters of the model.
\<close>

record 'e externals =
  requests_get :: "proxy_handle \<Rightarrow> 'e \<Rightarrow> (exn + string) \<times> 'e"
  search_client_id :: "string \<Rightarrow> string option"
  search_client_secret :: "string \<Rightarrow> string option"
  requests_post :: "string \<Rightarrow> string \<times> string \<Rightarrow> proxy_handle \<Rightarrow> 'e \<Rightarrow> (exn + response) \<times> 'e"
  json_dump_file :: "string \<Rightarrow> json \<Rightarrow> 'e \<Rightarrow> exn option \<times> 'e"

definition repr_handle :: "proxy_handle \<Rightarrow> string" where
  "repr_handle proxy =
     ''{'' @ concat (map (\<lambda>(k, v). [CHR 0x27] @ k @ [CHR 0x27] @ '': '' @ [CHR 0x27] @ v @ [CHR 0x27] @
                           (if k = fst (last proxy) then [] else '', '')) proxy) @ ''}''"

definition get_access_keys ::
  "'e externals \<Rightarrow> proxy_handle \<Rightarrow> 'e world \<Rightarrow> (exn + string \<times> string) \<times> 'e world" where
  "get_access_keys ext proxy w =
     (case requests_get ext proxy (outside w) of
        (Inl e, out) \<Rightarrow>
          (case e of
             RequestException m \<Rightarrow>
               (Inl e, logging ERROR (AccessKeysRequestFailed (repr_handle proxy) m) (w\<lparr>outside := out\<rparr>))
           | _ \<Rightarrow> (Inl e, w\<lparr>outside := out\<rparr>))
      | (Inr data, out) \<Rightarrow>
          (case (search_client_id ext data, search_client_secret ext data) of
             (Some client_id, Some client_secret) \<Rightarrow> (Inr (client_id, client_secret), w\<lparr>outside := out\<rparr>)
           | _ \<Rightarrow>
               (Inl (ValueError (''Access keys not found for proxy: '' @ repr_handle proxy)),
                logging WARNING (KeysNotFound (repr_handle proxy)) (w\<lparr>outside := out\<rparr>))))"

text \<open>The undecorated \<open>get_serp_results\<close>; it returns \<open>None\<close> when it succeeds.\<close>

definition get_serp_results_body ::
  "'e externals \<Rightarrow> string \<Rightarrow> 'e world \<Rightarrow> (exn + unit) \<times> 'e world" where
  "get_serp_results_body ext search_value w =
     (case get_proxy w of
        (Inl e, w1) \<Rightarrow> (Inl e, w1)
      | (Inr None, w1) \<Rightarrow> (Inl (TypeError ''cannot unpack non-iterable NoneType object''), w1)
      | (Inr (Some (proxy, proxy_key)), w1) \<Rightarrow>
          (case get_access_keys ext proxy w1 of
             (Inl e, w2) \<Rightarrow> (Inl e, w2)
           | (Inr (client_id, client_secret), w2) \<Rightarrow>
               if client_id = [] \<or> client_secret = [] then
                 (Inl (ValueError (''Failed to retrieve access keys for proxy: '' @ proxy_key)), w2)
               else
                 (case requests_post ext search_value (client_id, client_secret) proxy (outside w2) of
                    (Inl e, out) \<Rightarrow> (Inl e, w2\<lparr>outside := out\<rparr>)
                  | (Inr response, out) \<Rightarrow>
                      (let w3 = w2\<lparr>outside := out\<rparr>
                       in case response of
                            Inl e \<Rightarrow> (Inl e, w3)
                          | Inr json_response \<Rightarrow>
                              if \<not> isinstance_dict json_response then
                                (Inl (ValueError ''Unexpected response format, retrying...''),
                                 ban_proxy proxy_key w3)
                              else
                                (let filename = search_value @ ''.txt''
                                 in case json_dump_file ext filename json_response (outside w3) of
                                      (Some e, out2) \<Rightarrow> (Inl e, w3\<lparr>outside := out2\<rparr>)
                                    | (None, out2) \<Rightarrow>
                                        (let w4 = logging INFO (SavedResults filename proxy_key)
                                                    (w3\<lparr>outside := out2\<rparr>)
                                         in (Inr (), update_proxy proxy_key w4)))))))"

definition get_serp_results ::
  "'e externals \<Rightarrow> string \<Rightarrow> RetryTracker \<times> 'e world \<Rightarrow> (exn + unit option) \<times> RetryTracker \<times> 'e world" where
  "get_serp_results ext = retry_with_tracking 10 (get_serp_results_body ext)"

section \<open>main (main.py)\<close>

fun str_nat :: "nat \<Rightarrow> string" where
  "str_nat n = (if n < 10 then [char_of (48 + n)] else str_nat (n div 10) @ [char_of (48 + n mod 10)])"

declare str_nat.simps [simp del]

definition search_terms :: "string list" where
  "search_terms = map (\<lambda>n. ''nana'' @ str_nat n) [0..<50]"

definition max_threads :: "nat \<Rightarrow> nat" where
  "max_threads cpu_count = max 10 ((cpu_count * 5) div 2)"

text \<open>
  \<open>main\<close> up to the point where the work is handed to the thread pool: the result is the
  list of search terms given to \<open>executor.map\<close>, each of which becomes one call of
  \<open>get_serp_results\<close> on a worker thread. The threads themselves are not modelled.
\<close>

definition main :: "filesystem \<Rightarrow> nat \<Rightarrow> 'e world \<Rightarrow> string list \<times> 'e world" where
  "main fs cpu_count w =
     (case read_proxies fs ''proxies.txt'' (ProxyManager_init w) of
        (False, w1) \<Rightarrow> ([], logging ERROR NoProxiesLoadedExiting w1)
      | (True, w1) \<Rightarrow> (search_terms, logging INFO (UsingThreadPool (max_threads cpu_count)) w1))"

section \<open>Pool states used as examples\<close>

text \<open>
  Four proxies at time 50: \<open>b\<close> is banned until 100, the ban of \<open>d\<close> ended at 10, and of
  the three that can be selected \<open>c\<close> is the first with the oldest use.
\<close>

definition pool_abcd :: "unit world" where
  "pool_abcd = \<lparr>proxies = [(''a'', 5), (''b'', 0), (''c'', 0), (''d'', 0)],
                banned_proxies = [(''b'', 100), (''d'', 10)],
                clock = 50, log = [], outside = ()\<rparr>"

text \<open>Two proxies at time 100, both banned: \<open>a\<close> until 1000 and \<open>b\<close> until 400.\<close>

definition pool_all_banned :: "unit world" where
  "pool_all_banned = \<lparr>proxies = [(''a'', 0), (''b'', 7)],
                       banned_proxies = [(''a'', 1000), (''b'', 400)],
                       clock = 100, log = [], outside = ()\<rparr>"

text \<open>One proxy, never used, not banned, at time 0.\<close>

definition pool_a :: "unit world" where
  "pool_a = \<lparr>proxies = [(''a'', 0)], banned_proxies = [], clock = 0, log = [], outside = ()\<rparr>"

text \<open>
  Two proxies; \<open>a\<close> is banned at time 0 (until 180), \<open>b\<close> at time 100 (until 280), and the
  state is looked at at time 200, when the ban of \<open>a\<close> is over and that of \<open>b\<close> is not.
\<close>

definition pool_ab :: "unit world" where
  "pool_ab = \<lparr>proxies = [(''a'', 0), (''b'', 0)], banned_proxies = [],
              clock = 0, log = [], outside = ()\<rparr>"

definition pool_ab_at_200 :: "unit world" where
  "pool_ab_at_200 = (ban_proxy ''b'' ((ban_proxy ''a'' pool_ab)\<lparr>clock := 100\<rparr>))\<lparr>clock := 200\<rparr>"

text \<open>An empty manager, and two endpoint files: one of blank lines, one with a repeated endpoint.\<close>

definition world0 :: "unit world" where
  "world0 = \<lparr>proxies = [], banned_proxies = [], clock = 0, log = [], outside = ()\<rparr>"

definition fs_blank :: filesystem where
  "fs_blank name = (if name = ''proxies.txt'' then Some [[CHR 0x0A], ''  '' @ [CHR 0x0A]] else None)"

definition fs_endpoints :: filesystem where
  "fs_endpoints name =
     (if name = ''proxies.txt''
      then Some [''1.2.3.4:80'' @ [CHR 0x0A], [CHR 0x0A], ''  5.6.7.8:90 '' @ [CHR 0x0A], ''1.2.3.4:80'']
      else None)"

text \<open>A task body that fails whenever it is run, and a world whose outside is a counter.\<close>

definition always_failing :: "string \<Rightarrow> nat world \<Rightarrow> (exn + unit) \<times> nat world" where
  "always_failing search_value w = (Inl (RequestException (''timeout '' @ search_value)), w)"

definition counter_world :: "nat world" where
  "counter_world = \<lparr>proxies = [(''a'', 0)], banned_proxies = [], clock = 0, log = [], outside = 0\<rparr>"

text \<open>
  The script the keys are read from, with both keys between double quotes as the patterns
  of \<open>get_access_keys\<close> expect them.
\<close>

definition keys_script :: string where
  "keys_script =
     ''CF_ACCESS_CLIENT_ID:'' @ [CHR 0x22] @ ''id'' @ [CHR 0x22] @
     '',CF_ACCESS_CLIENT_SECRET:'' @ [CHR 0x22] @ ''secret'' @ [CHR 0x22]"

text \<open>A remote service that hands out keys and answers every search with a JSON list.\<close>

definition ext_list_response :: "unit externals" where
  "ext_list_response =
     \<lparr>requests_get = (\<lambda>proxy out. (Inr keys_script, out)),
      search_client_id = (\<lambda>data. if data = keys_script then Some ''id'' else None),
      search_client_secret = (\<lambda>data. if data = keys_script then Some ''secret'' else None),
      requests_post = (\<lambda>search_value keys proxy out. (Inr (Inr (JList [])), out)),
      json_dump_file = (\<lambda>filename j out. (None, out))\<rparr>"

text \<open>
  A remote service that hands out keys and answers every search with a page that is not
  JSON (a captcha page): the request itself succeeds, and \<open>response.json()\<close> raises.
\<close>

definition ext_html_response :: "unit externals" where
  "ext_html_response =
     \<lparr>requests_get = (\<lambda>proxy out. (Inr keys_script, out)),
      search_client_id = (\<lambda>data. if data = keys_script then Some ''id'' else None),
      search_client_secret = (\<lambda>data. if data = keys_script then Some ''secret'' else None),
      requests_post = (\<lambda>search_value keys proxy out.
         (Inr (Inl (JSONDecodeError ''Expecting value: line 1 column 1 (char 0)'')), out)),
      json_dump_file = (\<lambda>filename j out. (None, out))\<rparr>"

section \<open>Notions used to state the properties\<close>

text \<open>
  The wait of the specification, in its words: 0 if no proxy is currently banned, otherwise
  \<open>max(0, earliestBannedUntil - now)\<close> over the currently banned proxies, those whose ban
  ends in the future.
\<close>

definition currently_banned :: "'e world \<Rightarrow> (string, real) dict" where
  "currently_banned w = filter (\<lambda>(proxy, until). clock w < until) (banned_proxies w)"

definition minWaitUntilUnban_spec :: "'e world \<Rightarrow> real" where
  "minWaitUntilUnban_spec w =
     (if currently_banned w = [] then 0
      else max 0 (min_list (map snd (currently_banned w)) - clock w))"

text \<open>
  To count how often a task body is run, it is run in a world whose outside is a counter
  that every run advances by one, whatever else the body does.
\<close>

definition counted ::
  "(string \<Rightarrow> nat world \<Rightarrow> (exn + 'a) \<times> nat world) \<Rightarrow> string \<Rightarrow> nat world \<Rightarrow> (exn + 'a) \<times> nat world" where
  "counted func search_value w =
     (case func search_value w of (r, w1) \<Rightarrow> (r, w1\<lparr>outside := Suc (outside w)\<rparr>))"

text \<open>The log lines of \<open>get_proxy\<close> finding no proxy: one per failed acquisition.\<close>

fun acquisition_failed :: "level \<times> msg \<Rightarrow> bool" where
  "acquisition_failed (lv, NoAvailableProxiesRetryingIn d) = True"
| "acquisition_failed (lv, m) = False"

section \<open>Dictionaries and the minimum\<close>

lemma update_fresh: "k \<notin> fst ` set d \<Longrightarrow> AList.update k v d = d @ [(k, v)]"
  by (induction d) auto

lemma foldl_update_distinct:
  "distinct (map fst (acc @ xs)) \<Longrightarrow> foldl (\<lambda>d (k, v). AList.update k v d) acc xs = acc @ xs"
proof (induction xs arbitrary: acc)
  case Nil
  then show ?case by simp
next
  case (Cons x xs)
  obtain k v where x: "x = (k, v)" by (cases x)
  from Cons.prems have fresh: "k \<notin> fst ` set acc" by (auto simp: x)
  from Cons.prems have d: "distinct (map fst ((acc @ [(k, v)]) @ xs))" by (auto simp: x)
  show ?case using Cons.IH [OF d] by (simp add: x update_fresh [OF fresh])
qed

lemma dict_comp_distinct: "distinct (map fst xs) \<Longrightarrow> dict_comp xs = xs"
  using foldl_update_distinct [of "[]" xs] by (simp add: dict_comp_def)

lemma min_from_split:
  "\<exists>pre post. best # xs = pre @ min_from best xs # post \<and>
     (\<forall>x \<in> set pre. snd (min_from best xs) < snd x) \<and>
     (\<forall>x \<in> set post. snd (min_from best xs) \<le> snd x)"
proof (induction xs arbitrary: best)
  case Nil
  show ?case
  proof (intro exI conjI)
    show "[best] = [] @ min_from best [] # []" by simp
  qed simp_all
next
  case (Cons x xs)
  show ?case
  proof (cases "snd x < snd best")
    case True
    have mf: "min_from best (x # xs) = min_from x xs" using True by simp
    from Cons.IH [of x] obtain pre post where
      sp: "x # xs = pre @ min_from x xs # post"
      and lt: "\<forall>y \<in> set pre. snd (min_from x xs) < snd y"
      and le: "\<forall>y \<in> set post. snd (min_from x xs) \<le> snd y" by blast
    have "x \<in> set (pre @ min_from x xs # post)" using sp by (metis list.set_intros(1))
    then have "snd (min_from x xs) \<le> snd x" using lt le by auto
    then have below: "snd (min_from x xs) < snd best" using True by simp
    show ?thesis unfolding mf
    proof (intro exI conjI)
      show "best # x # xs = (best # pre) @ min_from x xs # post" using sp by simp
      show "\<forall>y \<in> set (best # pre). snd (min_from x xs) < snd y" using lt below by simp
      show "\<forall>y \<in> set post. snd (min_from x xs) \<le> snd y" by (rule le)
    qed
  next
    case False
    from Cons.IH [of best] obtain pre post where
      sp: "best # xs = pre @ min_from best xs # post"
      and lt: "\<forall>y \<in> set pre. snd (min_from best xs) < snd y"
      and le: "\<forall>y \<in> set post. snd (min_from best xs) \<le> snd y" by blast
    have mf: "min_from best (x # xs) = min_from best xs" using False by simp
    show ?thesis
    proof (cases pre)
      case Nil
      from sp have "best # xs = min_from best xs # post" unfolding Nil append_Nil .
      then have b: "min_from best xs = best" and p: "post = xs" by auto
      show ?thesis unfolding mf b
      proof (intro exI conjI)
        show "best # x # xs = [] @ best # (x # xs)" by simp
        show "\<forall>y \<in> set []. snd best < snd y" by simp
        show "\<forall>y \<in> set (x # xs). snd best \<le> snd y" using le False b p by auto
      qed
    next
      case (Cons b pre')
      from sp have "best # xs = b # (pre' @ min_from best xs # post)"
        unfolding Cons append_Cons .
      then have b: "b = best" and xs: "xs = pre' @ min_from best xs # post" by auto
      have "snd (min_from best xs) < snd best" using lt Cons b by simp
      then have "snd (min_from best xs) < snd x" using False by simp
      then have lt': "\<forall>y \<in> set (best # x # pre'). snd (min_from best xs) < snd y"
        using lt Cons b by simp
      show ?thesis unfolding mf
      proof (intro exI conjI)
        show "best # x # xs = (best # x # pre') @ min_from best xs # post"
          using xs by simp
        show "\<forall>y \<in> set (best # x # pre'). snd (min_from best xs) < snd y" by (rule lt')
        show "\<forall>y \<in> set post. snd (min_from best xs) \<le> snd y" by (rule le)
      qed
    qed
  qed
qed

section \<open>The acquisition retry loop\<close>

lemma py_min_key_nonempty: "d \<noteq> [] \<Longrightarrow> \<exists>k. py_min_key d = Inr k"
  by (cases d) simp_all

lemma get_proxy_body_fail:
  "available_proxies w = [] \<Longrightarrow>
   get_proxy_body w = (Inl (ValueError ''No available proxies, retrying...''),
                       logging ERROR (NoAvailableProxiesRetryingIn (get_dynamic_delay w)) w)"
  by (simp add: get_proxy_body_def)

lemma get_proxy_body_ok:
  assumes "available_proxies w = kv # rest"
  shows "get_proxy_body w =
     (Inr ([(''http'', ''http://'' @ fst (min_from kv rest)),
            (''https'', ''http://'' @ fst (min_from kv rest))], fst (min_from kv rest)),
      w\<lparr>proxies := AList.update (fst (min_from kv rest)) (clock w) (proxies w)\<rparr>)"
  using assms by (simp add: get_proxy_body_def)

lemma get_proxy_body_Inl:
  assumes "get_proxy_body w = (Inl e, w1)"
  shows "available_proxies w = [] \<and> e = ValueError ''No available proxies, retrying...'' \<and>
         w1 = logging ERROR (NoAvailableProxiesRetryingIn (get_dynamic_delay w)) w"
proof (cases "available_proxies w")
  case Nil
  then show ?thesis using assms get_proxy_body_fail [OF Nil] by simp
next
  case (Cons kv rest)
  then show ?thesis using assms get_proxy_body_ok [OF Cons] by simp
qed

lemma retry_loop_2:
  "retry_loop func 2 w =
     (case func w of (Inr r, w1) \<Rightarrow> (Inr (Some r), w1) | (Inl e, w1) \<Rightarrow> (Inl e, w1))"
  by (subst retry_loop.simps) (simp add: max_tries_def Let_def numeral_2_eq_2 split: prod.split sum.split)

lemma retry_loop_1:
  "retry_loop func 1 w =
     (case func w of
        (Inr r, w1) \<Rightarrow> (Inr (Some r), w1)
      | (Inl e, w1) \<Rightarrow>
          retry_loop func 2
            (time_sleep (get_dynamic_delay w1)
               (logging INFO (AttemptFailedRetryingIn 2 (get_dynamic_delay w1)) w1)))"
  by (subst retry_loop.simps) (simp add: max_tries_def Let_def numeral_2_eq_2 split: prod.split sum.split)

lemma retry_loop_0:
  "retry_loop func 0 w =
     (case func w of
        (Inr r, w1) \<Rightarrow> (Inr (Some r), w1)
      | (Inl e, w1) \<Rightarrow>
          retry_loop func 1
            (time_sleep (get_dynamic_delay w1)
               (logging INFO (AttemptFailedRetryingIn 1 (get_dynamic_delay w1)) w1)))"
  by (subst retry_loop.simps) (simp add: max_tries_def Let_def numeral_2_eq_2 split: prod.split sum.split)

lemma retry_loop_unfold:
  "dynamic_retry_decorator func w =
     (case func w of
        (Inr r, w1) \<Rightarrow> (Inr (Some r), w1)
      | (Inl e1, w1) \<Rightarrow>
          (case func (time_sleep (get_dynamic_delay w1)
                        (logging INFO (AttemptFailedRetryingIn 1 (get_dynamic_delay w1)) w1)) of
             (Inr r, w2) \<Rightarrow> (Inr (Some r), w2)
           | (Inl e2, w2) \<Rightarrow>
               (case func (time_sleep (get_dynamic_delay w2)
                             (logging INFO (AttemptFailedRetryingIn 2 (get_dynamic_delay w2)) w2)) of
                  (Inr r, w3) \<Rightarrow> (Inr (Some r), w3)
                | (Inl e3, w3) \<Rightarrow> (Inl e3, w3))))"
  unfolding dynamic_retry_decorator_def retry_loop_0 retry_loop_1 retry_loop_2 ..

text \<open>
  C5: the loop around the acquisition calls the wrapped function at most three times. After
  the first and after the second failure the delay is computed by \<open>get_dynamic_delay\<close>
  from the state the failed call left (\<open>w1\<close>, then \<open>w2\<close>), logged, and slept. A third
  failure is returned as it is, with no delay computed and no sleep: the state returned is
  the one the third call left.
\<close>

theorem dynamic_retry_decorator_three_attempts:
  "dynamic_retry_decorator func w =
     (case func w of
        (Inr r, w1) \<Rightarrow> (Inr (Some r), w1)
      | (Inl e1, w1) \<Rightarrow>
          (let d1 = get_dynamic_delay w1;
               v1 = time_sleep d1 (logging INFO (AttemptFailedRetryingIn 1 d1) w1)
           in case func v1 of
                (Inr r, w2) \<Rightarrow> (Inr (Some r), w2)
              | (Inl e2, w2) \<Rightarrow>
                  (let d2 = get_dynamic_delay w2;
                       v2 = time_sleep d2 (logging INFO (AttemptFailedRetryingIn 2 d2) w2)
                   in case func v2 of
                        (Inr r, w3) \<Rightarrow> (Inr (Some r), w3)
                      | (Inl e3, w3) \<Rightarrow> (Inl e3, w3))))"
proof -
  have "dynamic_retry_decorator func w = retry_loop func 0 w"
    by (simp add: dynamic_retry_decorator_def)
  also have "\<dots> =
     (case func w of
        (Inr r, w1) \<Rightarrow> (Inr (Some r), w1)
      | (Inl e1, w1) \<Rightarrow>
          retry_loop func 1
            (time_sleep (get_dynamic_delay w1)
               (logging INFO (AttemptFailedRetryingIn 1 (get_dynamic_delay w1)) w1)))"
    by (rule retry_loop_0)
  also have "\<dots> =
     (case func w of
        (Inr r, w1) \<Rightarrow> (Inr (Some r), w1)
      | (Inl e1, w1) \<Rightarrow>
          (let d1 = get_dynamic_delay w1;
               v1 = time_sleep d1 (logging INFO (AttemptFailedRetryingIn 1 d1) w1)
           in case func v1 of
                (Inr r, w2) \<Rightarrow> (Inr (Some r), w2)
              | (Inl e2, w2) \<Rightarrow>
                  (let d2 = get_dynamic_delay w2;
                       v2 = time_sleep d2 (logging INFO (AttemptFailedRetryingIn 2 d2) w2)
                   in case func v2 of
                        (Inr r, w3) \<Rightarrow> (Inr (Some r), w3)
                      | (Inl e3, w3) \<Rightarrow> (Inl e3, w3))))"
    unfolding retry_loop_1 retry_loop_2 Let_def ..
  finally show ?thesis .
qed

theorem dynamic_retry_decorator_three_attempts_witness:
  "dynamic_retry_decorator get_proxy_body pool_all_banned =
     (Inl (ValueError ''No available proxies, retrying...''),
      pool_all_banned\<lparr>clock := 400,
        log := [(ERROR, NoAvailableProxiesRetryingIn 300), (INFO, AttemptFailedRetryingIn 1 300),
                (ERROR, NoAvailableProxiesRetryingIn 0), (INFO, AttemptFailedRetryingIn 2 0),
                (ERROR, NoAvailableProxiesRetryingIn 0)]\<rparr>)"
  using dynamic_retry_decorator_three_attempts [of get_proxy_body pool_all_banned]
  by (simp add: get_proxy_body_def available_proxies_def
          dict_comp_def is_unbanned_def pool_all_banned_def get_dynamic_delay_def logging_def
          time_sleep_def)

section \<open>Selection of a proxy\<close>

lemma logging_fields [simp]: "proxies (logging lv m w) = proxies w" "banned_proxies (logging lv m w) = banned_proxies w"
  "clock (logging lv m w) = clock w" "outside (logging lv m w) = outside w"
  "log (logging lv m w) = log w @ [(lv, m)]"
  by (simp_all add: logging_def)

lemma time_sleep_fields [simp]: "proxies (time_sleep d w) = proxies w" "banned_proxies (time_sleep d w) = banned_proxies w"
  "clock (time_sleep d w) = clock w + d" "outside (time_sleep d w) = outside w"
  "log (time_sleep d w) = log w"
  by (simp_all add: time_sleep_def)

lemma get_dynamic_delay_cong:
  "banned_proxies v = banned_proxies w \<Longrightarrow> clock v = clock w \<Longrightarrow> get_dynamic_delay v = get_dynamic_delay w"
  by (simp add: get_dynamic_delay_def)

lemma get_proxy_body_unchanged:
  assumes "get_proxy_body w = (Inl e, w1)"
  shows "proxies w1 = proxies w" "banned_proxies w1 = banned_proxies w" "clock w1 = clock w"
    "outside w1 = outside w" "e = ValueError ''No available proxies, retrying...''"
    "log w1 = log w @ [(ERROR, NoAvailableProxiesRetryingIn (get_dynamic_delay w))]"
  using get_proxy_body_Inl [OF assms] by simp_all

lemma get_proxy_exhausted:
  assumes "get_proxy w = (Inl e, w')"
  shows "\<exists>d1 d2 d3.
     d1 = get_dynamic_delay w \<and>
     d2 = get_dynamic_delay (w\<lparr>clock := clock w + d1\<rparr>) \<and>
     d3 = get_dynamic_delay (w\<lparr>clock := clock w + d1 + d2\<rparr>) \<and>
     e = ValueError ''No available proxies, retrying...'' \<and>
     w' = w\<lparr>clock := clock w + d1 + d2,
            log := log w @ [(ERROR, NoAvailableProxiesRetryingIn d1),
                            (INFO, AttemptFailedRetryingIn 1 d1),
                            (ERROR, NoAvailableProxiesRetryingIn d2),
                            (INFO, AttemptFailedRetryingIn 2 d2),
                            (ERROR, NoAvailableProxiesRetryingIn d3)]\<rparr>"
proof -
  obtain r1 w1 where b1: "get_proxy_body w = (r1, w1)" by (cases "get_proxy_body w")
  from assms b1 obtain e1 where r1: "r1 = Inl e1"
    by (cases r1) (auto simp: get_proxy_def retry_loop_unfold)
  note f1 = get_proxy_body_Inl [OF b1 [unfolded r1]]
  let ?d1 = "get_dynamic_delay w1"
  let ?v1 = "time_sleep ?d1 (logging INFO (AttemptFailedRetryingIn 1 ?d1) w1)"
  obtain r2 w2 where b2: "get_proxy_body ?v1 = (r2, w2)" by (cases "get_proxy_body ?v1")
  from assms b1 r1 b2 obtain e2 where r2: "r2 = Inl e2"
    by (cases r2) (auto simp: get_proxy_def retry_loop_unfold Let_def)
  note f2 = get_proxy_body_Inl [OF b2 [unfolded r2]]
  let ?d2 = "get_dynamic_delay w2"
  let ?v2 = "time_sleep ?d2 (logging INFO (AttemptFailedRetryingIn 2 ?d2) w2)"
  obtain r3 w3 where b3: "get_proxy_body ?v2 = (r3, w3)" by (cases "get_proxy_body ?v2")
  from assms b1 r1 b2 r2 b3 obtain e3 where r3: "r3 = Inl e3" and fin: "e = e3" "w' = w3"
    by (cases r3) (auto simp: get_proxy_def retry_loop_unfold Let_def)
  note f3 = get_proxy_body_Inl [OF b3 [unfolded r3]]
  have d1: "?d1 = get_dynamic_delay w" using f1 by (simp add: get_dynamic_delay_def)
  have d2: "?d2 = get_dynamic_delay (w\<lparr>clock := clock w + ?d1\<rparr>)"
    using f1 f2 by (simp add: get_dynamic_delay_def)
  have d3: "get_dynamic_delay ?v2 = get_dynamic_delay (w\<lparr>clock := clock w + ?d1 + ?d2\<rparr>)"
    using f1 f2 by (simp add: get_dynamic_delay_def)
  have "w3 = w\<lparr>clock := clock w + ?d1 + ?d2,
            log := log w @ [(ERROR, NoAvailableProxiesRetryingIn (get_dynamic_delay w)),
                            (INFO, AttemptFailedRetryingIn 1 ?d1),
                            (ERROR, NoAvailableProxiesRetryingIn (get_dynamic_delay ?v1)),
                            (INFO, AttemptFailedRetryingIn 2 ?d2),
                            (ERROR, NoAvailableProxiesRetryingIn (get_dynamic_delay ?v2))]\<rparr>"
    using f1 f2 f3 by (simp add: logging_def time_sleep_def)
  moreover have "get_dynamic_delay ?v1 = ?d2" using f2 by (simp add: get_dynamic_delay_def)
  ultimately show ?thesis using d1 d2 d3 fin f3 by simp
qed

lemma available_proxies_filter:
  "distinct (map fst (proxies w)) \<Longrightarrow>
   available_proxies w = filter (\<lambda>(proxy, last_used). is_unbanned w proxy) (proxies w)"
  unfolding available_proxies_def
  by (rule dict_comp_distinct) (simp add: distinct_map_filter)

lemma get_proxy_first_try:
  "get_proxy_body w = (Inr r, w1) \<Longrightarrow> get_proxy w = (Inr (Some r), w1)"
  by (simp add: get_proxy_def retry_loop_unfold)

text \<open>
  C1: when some proxy of the pool is not banned or has a ban in the past, \<open>get_proxy\<close>
  returns such a proxy \<open>p\<close>: its last use \<open>lu\<close> is the least among all proxies that can be
  selected, every such proxy before it in the order of the dictionary has a strictly later
  last use (so of several with the least value the first is taken), and the state returned
  has the last use of \<open>p\<close> set to the current time, by the same call.
\<close>

theorem get_proxy_least_recently_used:
  assumes dist: "distinct (map fst (proxies w))"
    and some: "\<exists>(p, l) \<in> set (proxies w). is_unbanned w p"
  shows "\<exists>p lu pre post.
     get_proxy w =
       (Inr (Some ([(''http'', ''http://'' @ p), (''https'', ''http://'' @ p)], p)),
        w\<lparr>proxies := AList.update p (clock w) (proxies w)\<rparr>) \<and>
     filter (\<lambda>(q, l). is_unbanned w q) (proxies w) = pre @ (p, lu) # post \<and>
     (\<forall>(q, l) \<in> set pre. lu < l) \<and>
     (\<forall>(q, l) \<in> set post. lu \<le> l) \<and>
     is_unbanned w p \<and> map_of (proxies w) p = Some lu \<and>
     (\<forall>(q, l) \<in> set (proxies w). is_unbanned w q \<longrightarrow> lu \<le> l) \<and>
     map_of (AList.update p (clock w) (proxies w)) p = Some (clock w)"
proof -
  let ?av = "filter (\<lambda>(q, l). is_unbanned w q) (proxies w)"
  have av: "available_proxies w = ?av" by (rule available_proxies_filter [OF dist])
  from some have "?av \<noteq> []" by (auto simp: filter_empty_conv)
  then obtain kv rest where cons: "?av = kv # rest" by (cases ?av) auto
  obtain p lu where m: "min_from kv rest = (p, lu)" by (cases "min_from kv rest")
  from min_from_split [of kv rest] obtain pre post where
    sp: "kv # rest = pre @ min_from kv rest # post"
    and lt: "\<forall>x \<in> set pre. snd (min_from kv rest) < snd x"
    and le: "\<forall>x \<in> set post. snd (min_from kv rest) \<le> snd x" by blast
  have split: "?av = pre @ (p, lu) # post" using sp cons m by simp
  have body: "get_proxy_body w =
     (Inr ([(''http'', ''http://'' @ p), (''https'', ''http://'' @ p)], p),
      w\<lparr>proxies := AList.update p (clock w) (proxies w)\<rparr>)"
    using get_proxy_body_ok [of w kv rest] av cons m by simp
  have mem: "(p, lu) \<in> set ?av" using split by simp
  then have unb: "is_unbanned w p" and inp: "(p, lu) \<in> set (proxies w)" by auto
  have look: "map_of (proxies w) p = Some lu" using dist inp by simp
  have glob: "\<forall>(q, l) \<in> set (proxies w). is_unbanned w q \<longrightarrow> lu \<le> l"
  proof clarify
    fix q l assume "(q, l) \<in> set (proxies w)" "is_unbanned w q"
    then have "(q, l) \<in> set ?av" by simp
    then have "(q, l) \<in> set (pre @ (p, lu) # post)" unfolding split .
    then show "lu \<le> l" using lt le m by fastforce
  qed
  show ?thesis
  proof (intro exI conjI)
    show "get_proxy w =
       (Inr (Some ([(''http'', ''http://'' @ p), (''https'', ''http://'' @ p)], p)),
        w\<lparr>proxies := AList.update p (clock w) (proxies w)\<rparr>)"
      by (rule get_proxy_first_try [OF body])
    show "?av = pre @ (p, lu) # post" by (rule split)
    show "\<forall>(q, l) \<in> set pre. lu < l" using lt m by fastforce
    show "\<forall>(q, l) \<in> set post. lu \<le> l" using le m by fastforce
    show "is_unbanned w p" by (rule unb)
    show "map_of (proxies w) p = Some lu" by (rule look)
    show "\<forall>(q, l) \<in> set (proxies w). is_unbanned w q \<longrightarrow> lu \<le> l" by (rule glob)
    show "map_of (AList.update p (clock w) (proxies w)) p = Some (clock w)"
      by (simp add: update_conv')
  qed
qed

theorem get_proxy_least_recently_used_witness:
  "distinct (map fst (proxies pool_abcd)) \<and>
   (\<exists>(p, l) \<in> set (proxies pool_abcd). is_unbanned pool_abcd p) \<and>
   (\<exists>p lu pre post.
     get_proxy pool_abcd =
       (Inr (Some ([(''http'', ''http://'' @ p), (''https'', ''http://'' @ p)], p)),
        pool_abcd\<lparr>proxies := AList.update p (clock pool_abcd) (proxies pool_abcd)\<rparr>) \<and>
     filter (\<lambda>(q, l). is_unbanned pool_abcd q) (proxies pool_abcd) = pre @ (p, lu) # post \<and>
     (\<forall>(q, l) \<in> set pre. lu < l) \<and>
     (\<forall>(q, l) \<in> set post. lu \<le> l) \<and>
     is_unbanned pool_abcd p \<and> map_of (proxies pool_abcd) p = Some lu \<and>
     (\<forall>(q, l) \<in> set (proxies pool_abcd). is_unbanned pool_abcd q \<longrightarrow> lu \<le> l) \<and>
     map_of (AList.update p (clock pool_abcd) (proxies pool_abcd)) p = Some (clock pool_abcd))"
proof -
  have h1: "distinct (map fst (proxies pool_abcd))" by (simp add: pool_abcd_def)
  have h2: "\<exists>(p, l) \<in> set (proxies pool_abcd). is_unbanned pool_abcd p"
    by (simp add: pool_abcd_def is_unbanned_def)
  show ?thesis by (intro conjI h1 h2 get_proxy_least_recently_used [OF h1 h2])
qed

text \<open>
  C9: a call of \<open>get_proxy\<close> that fails leaves both dictionaries of the pool as they were.
  This holds for the body under the lock and for the decorated method after its three
  attempts.
\<close>

theorem get_proxy_failure_leaves_pool:
  "(get_proxy_body w = (Inl e, w1) \<longrightarrow>
      proxies w1 = proxies w \<and> banned_proxies w1 = banned_proxies w) \<and>
   (get_proxy w = (Inl e', w2) \<longrightarrow>
      proxies w2 = proxies w \<and> banned_proxies w2 = banned_proxies w)"
proof (intro conjI impI)
  assume "get_proxy_body w = (Inl e, w1)"
  from get_proxy_body_unchanged [OF this]
  show "proxies w1 = proxies w" "banned_proxies w1 = banned_proxies w" by simp_all
next
  assume "get_proxy w = (Inl e', w2)"
  from get_proxy_exhausted [OF this]
  show "proxies w2 = proxies w" "banned_proxies w2 = banned_proxies w" by auto
qed

theorem get_proxy_failure_leaves_pool_witness:
  "get_proxy_body pool_all_banned =
     (Inl (ValueError ''No available proxies, retrying...''),
      pool_all_banned\<lparr>log := [(ERROR, NoAvailableProxiesRetryingIn 300)]\<rparr>) \<and>
   get_proxy pool_all_banned =
     (Inl (ValueError ''No available proxies, retrying...''),
      pool_all_banned\<lparr>clock := 400,
        log := [(ERROR, NoAvailableProxiesRetryingIn 300), (INFO, AttemptFailedRetryingIn 1 300),
                (ERROR, NoAvailableProxiesRetryingIn 0), (INFO, AttemptFailedRetryingIn 2 0),
                (ERROR, NoAvailableProxiesRetryingIn 0)]\<rparr>) \<and>
   proxies (pool_all_banned\<lparr>log := [(ERROR, NoAvailableProxiesRetryingIn 300)]\<rparr>) = [(''a'', 0), (''b'', 7)] \<and>
   banned_proxies (pool_all_banned\<lparr>log := [(ERROR, NoAvailableProxiesRetryingIn 300)]\<rparr>) = [(''a'', 1000), (''b'', 400)] \<and>
   proxies (pool_all_banned\<lparr>clock := 400,
        log := [(ERROR, NoAvailableProxiesRetryingIn 300), (INFO, AttemptFailedRetryingIn 1 300),
                (ERROR, NoAvailableProxiesRetryingIn 0), (INFO, AttemptFailedRetryingIn 2 0),
                (ERROR, NoAvailableProxiesRetryingIn 0)]\<rparr>) = [(''a'', 0), (''b'', 7)] \<and>
   banned_proxies (pool_all_banned\<lparr>clock := 400,
        log := [(ERROR, NoAvailableProxiesRetryingIn 300), (INFO, AttemptFailedRetryingIn 1 300),
                (ERROR, NoAvailableProxiesRetryingIn 0), (INFO, AttemptFailedRetryingIn 2 0),
                (ERROR, NoAvailableProxiesRetryingIn 0)]\<rparr>) = [(''a'', 1000), (''b'', 400)]"
proof -
  let ?e = "ValueError ''No available proxies, retrying...''"
  let ?w1 = "pool_all_banned\<lparr>log := [(ERROR, NoAvailableProxiesRetryingIn 300)]\<rparr>"
  let ?w2 = "pool_all_banned\<lparr>clock := 400,
        log := [(ERROR, NoAvailableProxiesRetryingIn 300), (INFO, AttemptFailedRetryingIn 1 300),
                (ERROR, NoAvailableProxiesRetryingIn 0), (INFO, AttemptFailedRetryingIn 2 0),
                (ERROR, NoAvailableProxiesRetryingIn 0)]\<rparr>"
  have b: "get_proxy_body pool_all_banned = (Inl ?e, ?w1)"
    by (simp add: get_proxy_body_def available_proxies_def dict_comp_def is_unbanned_def
          pool_all_banned_def get_dynamic_delay_def logging_def)
  have g: "get_proxy pool_all_banned = (Inl ?e, ?w2)"
    by (simp add: get_proxy_def retry_loop_unfold get_proxy_body_def available_proxies_def
          dict_comp_def is_unbanned_def pool_all_banned_def get_dynamic_delay_def logging_def
          time_sleep_def)
  have p: "proxies pool_all_banned = [(''a'', 0), (''b'', 7)]"
    and q: "banned_proxies pool_all_banned = [(''a'', 1000), (''b'', 400)]"
    by (simp_all add: pool_all_banned_def)
  from get_proxy_failure_leaves_pool [of pool_all_banned ?e ?w1 ?e ?w2] b g p q
  show ?thesis by simp
qed

section \<open>Banning a proxy\<close>

lemma foldl_update_keys:
  "fst ` set (foldl (\<lambda>d (k, v). AList.update k v d) acc xs) = fst ` set acc \<union> fst ` set xs"
proof (induction xs arbitrary: acc)
  case Nil
  show ?case by simp
next
  case (Cons x xs)
  obtain k v where x: "x = (k, v)" by (cases x)
  have "fst ` set (foldl (\<lambda>d (k, v). AList.update k v d) acc (x # xs)) =
        fst ` set (AList.update k v acc) \<union> fst ` set xs"
    using Cons.IH [of "AList.update k v acc"] by (simp add: x)
  also have "\<dots> = ({k} \<union> fst ` set acc) \<union> fst ` set xs" by (simp only: dom_update)
  also have "\<dots> = fst ` set acc \<union> fst ` set (x # xs)" by (auto simp: x)
  finally show ?case .
qed

lemma dict_comp_keys: "fst ` set (dict_comp xs) = fst ` set xs"
  by (simp add: dict_comp_def foldl_update_keys)

lemma available_proxies_keys:
  "fst ` set (available_proxies w) = {p \<in> fst ` set (proxies w). is_unbanned w p}"
  by (force simp: available_proxies_def dict_comp_keys)

lemma min_from_mem: "min_from best xs \<in> set (best # xs)"
  using min_from_split [of best xs] by (metis in_set_conv_decomp)

lemma get_proxy_body_returns_available:
  assumes "get_proxy_body w = (Inr (h, p), w1)"
  shows "p \<in> fst ` set (available_proxies w)"
proof (cases "available_proxies w")
  case Nil
  then show ?thesis using assms get_proxy_body_fail [OF Nil] by simp
next
  case (Cons kv rest)
  with assms get_proxy_body_ok [OF Cons] have "p = fst (min_from kv rest)" by simp
  then have "p \<in> fst ` set (kv # rest)" using min_from_mem [of kv rest] by blast
  then show ?thesis using Cons by simp
qed

lemma is_unbanned_after_ban:
  "is_unbanned ((ban_proxy p w)\<lparr>clock := t\<rparr>) p \<longleftrightarrow> clock w + 180 < t"
  by (simp add: is_unbanned_def ban_proxy_def Let_def update_conv')

text \<open>
  C3 (as amended): \<open>ban_proxy\<close> at time \<open>T\<close> records \<open>T + 180\<close> as the end of the ban. At
  every instant up to and including \<open>T + 180\<close> the proxy does not pass the test of
  \<open>get_proxy\<close>, is not among the available proxies and is not returned; at every instant
  strictly after \<open>T + 180\<close> it passes the test again and, if it belongs to the pool, is
  among the available proxies.
\<close>

theorem ban_proxy_cooldown:
  "map_of (banned_proxies (ban_proxy p w)) p = Some (clock w + 180) \<and>
   (\<forall>t. t \<le> clock w + 180 \<longrightarrow>
      \<not> is_unbanned ((ban_proxy p w)\<lparr>clock := t\<rparr>) p \<and>
      p \<notin> fst ` set (available_proxies ((ban_proxy p w)\<lparr>clock := t\<rparr>)) \<and>
      (\<forall>h w1. get_proxy_body ((ban_proxy p w)\<lparr>clock := t\<rparr>) \<noteq> (Inr (h, p), w1))) \<and>
   (\<forall>t. clock w + 180 < t \<longrightarrow>
      is_unbanned ((ban_proxy p w)\<lparr>clock := t\<rparr>) p \<and>
      (p \<in> fst ` set (proxies w) \<longrightarrow>
         p \<in> fst ` set (available_proxies ((ban_proxy p w)\<lparr>clock := t\<rparr>))))"
proof (intro conjI allI impI)
  show "map_of (banned_proxies (ban_proxy p w)) p = Some (clock w + 180)"
    by (simp add: ban_proxy_def Let_def update_conv')
next
  fix t assume t: "t \<le> clock w + 180"
  let ?w = "(ban_proxy p w)\<lparr>clock := t\<rparr>"
  show nu: "\<not> is_unbanned ?w p" using t by (simp add: is_unbanned_after_ban)
  then show na: "p \<notin> fst ` set (available_proxies ?w)"
    by (simp add: available_proxies_keys)
  fix h w1
  show "get_proxy_body ?w \<noteq> (Inr (h, p), w1)"
    using get_proxy_body_returns_available [of ?w h p w1] na by blast
next
  fix t assume t: "clock w + 180 < t"
  let ?w = "(ban_proxy p w)\<lparr>clock := t\<rparr>"
  show u: "is_unbanned ?w p" using t by (simp add: is_unbanned_after_ban)
  assume "p \<in> fst ` set (proxies w)"
  then have "p \<in> fst ` set (proxies ?w)" by (simp add: ban_proxy_def Let_def)
  then show "p \<in> fst ` set (available_proxies ?w)" using u
    by (simp add: available_proxies_keys)
qed

theorem ban_proxy_cooldown_witness:
  "map_of (banned_proxies (ban_proxy ''a'' pool_a)) ''a'' = Some 180 \<and>
   \<not> is_unbanned ((ban_proxy ''a'' pool_a)\<lparr>clock := 179\<rparr>) ''a'' \<and>
   ''a'' \<notin> fst ` set (available_proxies ((ban_proxy ''a'' pool_a)\<lparr>clock := 179\<rparr>)) \<and>
   is_unbanned ((ban_proxy ''a'' pool_a)\<lparr>clock := 181\<rparr>) ''a'' \<and>
   ''a'' \<in> fst ` set (available_proxies ((ban_proxy ''a'' pool_a)\<lparr>clock := 181\<rparr>)) \<and>
   fst (get_proxy_body ((ban_proxy ''a'' pool_a)\<lparr>clock := 181\<rparr>)) =
     Inr ([(''http'', ''http://a''), (''https'', ''http://a'')], ''a'')"
proof -
  have c: "clock pool_a = 0" and p: "''a'' \<in> fst ` set (proxies pool_a)"
    by (simp_all add: pool_a_def)
  have g: "fst (get_proxy_body ((ban_proxy ''a'' pool_a)\<lparr>clock := 181\<rparr>)) =
     Inr ([(''http'', ''http://a''), (''https'', ''http://a'')], ''a'')"
    by (simp add: pool_a_def ban_proxy_def logging_def is_unbanned_def available_proxies_def
        dict_comp_def get_proxy_body_def)
  from ban_proxy_cooldown [of "''a''" pool_a] c p g show ?thesis by simp
qed

text \<open>
  C3, as the specification words it, fails at one instant. At the instant \<open>T + 180\<close>
  itself the proxy is still excluded: the test is
  \<open>time.time() > banned_until\<close>. Here the only proxy was banned at time 0 and the call at
  time 180 finds no proxy.
\<close>

theorem ban_proxy_boundary_counterexample:
  "\<not> is_unbanned ((ban_proxy ''a'' pool_a)\<lparr>clock := 180\<rparr>) ''a'' \<and>
   available_proxies ((ban_proxy ''a'' pool_a)\<lparr>clock := 180\<rparr>) = [] \<and>
   fst (get_proxy_body ((ban_proxy ''a'' pool_a)\<lparr>clock := 180\<rparr>)) =
     Inl (ValueError ''No available proxies, retrying...'')"
  by (simp add: pool_a_def ban_proxy_def logging_def is_unbanned_def available_proxies_def
        dict_comp_def get_proxy_body_def)

section \<open>The backoff delay\<close>

lemma pool_ab_at_200_eq:
  "pool_ab_at_200 = \<lparr>proxies = [(''a'', 0), (''b'', 0)],
      banned_proxies = [(''a'', 180), (''b'', 280)], clock = 200,
      log = [(WARNING, ProxyBannedUntil ''a'' 180), (WARNING, ProxyBannedUntil ''b'' 280)],
      outside = ()\<rparr>"
  by (simp add: pool_ab_at_200_def pool_ab_def ban_proxy_def logging_def)

lemma min_list_map_snd:
  "d \<noteq> [] \<Longrightarrow> min_list (map snd d) = Min (snd ` set d)"
  by (simp add: min_list_Min)

text \<open>
  C2 (as amended): \<open>get_dynamic_delay\<close> takes the minimum over every entry of
  \<open>banned_proxies\<close>, and entries are never removed when a ban ends. It returns the earliest
  end of a ban minus the current time when there is an entry and every entry lies in the
  future, and 0 otherwise. So it returns 0 when no proxy is currently banned, and it is the
  wait of the specification when no entry has expired.
\<close>

theorem get_dynamic_delay_over_all_entries:
  "get_dynamic_delay w =
     (if banned_proxies w \<noteq> [] \<and> (\<forall>(proxy, until) \<in> set (banned_proxies w). clock w < until)
      then Min (snd ` set (banned_proxies w)) - clock w
      else 0) \<and>
   (currently_banned w = [] \<longrightarrow> get_dynamic_delay w = 0) \<and>
   (currently_banned w = banned_proxies w \<longrightarrow> get_dynamic_delay w = minWaitUntilUnban_spec w)"
proof (intro conjI impI)
  show "get_dynamic_delay w =
     (if banned_proxies w \<noteq> [] \<and> (\<forall>(proxy, until) \<in> set (banned_proxies w). clock w < until)
      then Min (snd ` set (banned_proxies w)) - clock w
      else 0)"
  proof (cases "banned_proxies w = []")
    case True
    then show ?thesis by (simp add: get_dynamic_delay_def)
  next
    case ne: False
    let ?m = "Min (snd ` set (banned_proxies w))"
    have d: "get_dynamic_delay w = max 0 (?m - clock w)"
      using ne by (simp add: get_dynamic_delay_def min_list_map_snd)
    have fin: "finite (snd ` set (banned_proxies w))" "snd ` set (banned_proxies w) \<noteq> {}"
      using ne by simp_all
    show ?thesis
    proof (cases "\<forall>(proxy, until) \<in> set (banned_proxies w). clock w < until")
      case True
      then have "\<forall>u \<in> snd ` set (banned_proxies w). clock w < u" by auto
      then have "clock w < ?m" using fin by simp
      then show ?thesis using d ne True by simp
    next
      case False
      then obtain p u where "(p, u) \<in> set (banned_proxies w)" "u \<le> clock w" by force
      then have "?m \<le> u" using fin by (intro Min_le) force+
      then have "?m \<le> clock w" using \<open>u \<le> clock w\<close> by simp
      then have "get_dynamic_delay w = 0" using d by simp
      then show ?thesis using False by (simp only: if_False simp_thms)
    qed
  qed
  then have main: "get_dynamic_delay w =
     (if banned_proxies w \<noteq> [] \<and> (\<forall>(proxy, until) \<in> set (banned_proxies w). clock w < until)
      then Min (snd ` set (banned_proxies w)) - clock w
      else 0)" .
  show "get_dynamic_delay w = 0" if none: "currently_banned w = []"
  proof (cases "banned_proxies w")
    case Nil
    then show ?thesis by (simp add: get_dynamic_delay_def)
  next
    case (Cons x xs)
    then have "x \<in> set (banned_proxies w)" by simp
    moreover from none have "\<forall>y \<in> set (banned_proxies w). \<not> clock w < snd y"
      by (auto simp: currently_banned_def filter_empty_conv)
    ultimately have "\<not> (\<forall>(proxy, until) \<in> set (banned_proxies w). clock w < until)"
      unfolding case_prod_unfold by blast
    then show ?thesis using main by (simp only: simp_thms if_False)
  qed
  show "get_dynamic_delay w = minWaitUntilUnban_spec w" if "currently_banned w = banned_proxies w"
    using that by (simp add: get_dynamic_delay_def minWaitUntilUnban_spec_def)
qed

theorem get_dynamic_delay_over_all_entries_witness:
  "get_dynamic_delay pool_ab_at_200 =
     (if banned_proxies pool_ab_at_200 \<noteq> [] \<and>
         (\<forall>(proxy, until) \<in> set (banned_proxies pool_ab_at_200). clock pool_ab_at_200 < until)
      then Min (snd ` set (banned_proxies pool_ab_at_200)) - clock pool_ab_at_200
      else 0) \<and>
   currently_banned pool_all_banned = banned_proxies pool_all_banned \<and>
   get_dynamic_delay pool_all_banned = minWaitUntilUnban_spec pool_all_banned \<and>
   get_dynamic_delay pool_all_banned = 300 \<and>
   currently_banned (pool_abcd\<lparr>clock := 150\<rparr>) = [] \<and>
   get_dynamic_delay (pool_abcd\<lparr>clock := 150\<rparr>) = 0"
proof -
  have a: "currently_banned pool_all_banned = banned_proxies pool_all_banned"
    by (simp add: currently_banned_def pool_all_banned_def)
  have b: "currently_banned (pool_abcd\<lparr>clock := 150\<rparr>) = []"
    by (simp add: currently_banned_def pool_abcd_def)
  have c: "minWaitUntilUnban_spec pool_all_banned = 300"
    by (simp add: minWaitUntilUnban_spec_def currently_banned_def pool_all_banned_def)
  show ?thesis
    using get_dynamic_delay_over_all_entries [of pool_ab_at_200]
      get_dynamic_delay_over_all_entries [of pool_all_banned]
      get_dynamic_delay_over_all_entries [of "pool_abcd\<lparr>clock := 150\<rparr>"] a b c
    by simp
qed

text \<open>
  C2, as the specification words it, fails when an ended ban is still recorded. With an
  expired entry beside a running ban the two differ: at time 200 the ban of \<open>b\<close>
  runs for another 80 seconds, and \<open>get_dynamic_delay\<close> returns 0 because of the entry
  of \<open>a\<close>.
\<close>

theorem get_dynamic_delay_counts_expired_counterexample:
  "get_dynamic_delay pool_ab_at_200 = 0 \<and> minWaitUntilUnban_spec pool_ab_at_200 = 80 \<and>
   get_dynamic_delay pool_ab_at_200 \<noteq> minWaitUntilUnban_spec pool_ab_at_200"
  by (simp add: pool_ab_at_200_eq get_dynamic_delay_def minWaitUntilUnban_spec_def currently_banned_def)

section \<open>Loading the proxies\<close>

lemma foldl_update_distinct_keys:
  "distinct (map fst acc) \<Longrightarrow> distinct (map fst (foldl (\<lambda>d (k, v). AList.update k v d) acc xs))"
  by (induction xs arbitrary: acc) (auto simp: distinct_update)

lemma dict_comp_distinct_keys: "distinct (map fst (dict_comp xs))"
  by (simp add: dict_comp_def foldl_update_distinct_keys)

lemma update_values: "snd ` set (AList.update k v d) \<subseteq> insert v (snd ` set d)"
  by (induction d) auto

lemma foldl_update_values:
  "snd ` set (foldl (\<lambda>d (k, v). AList.update k v d) acc xs) \<subseteq> snd ` set acc \<union> snd ` set xs"
proof (induction xs arbitrary: acc)
  case Nil
  show ?case by simp
next
  case (Cons x xs)
  obtain k v where x: "x = (k, v)" by (cases x)
  have "snd ` set (foldl (\<lambda>d (k, v). AList.update k v d) acc (x # xs)) \<subseteq>
        snd ` set (AList.update k v acc) \<union> snd ` set xs"
    using Cons.IH [of "AList.update k v acc"] by (simp add: x)
  also have "\<dots> \<subseteq> insert v (snd ` set acc) \<union> snd ` set xs"
    using update_values [of k v acc] by blast
  also have "\<dots> = snd ` set acc \<union> snd ` set (x # xs)" by (auto simp: x)
  finally show ?case .
qed

lemma dict_comp_values: "snd ` set (dict_comp xs) \<subseteq> snd ` set xs"
  using foldl_update_values [of "[]" xs] by (simp add: dict_comp_def)

lemma dict_comp_empty: "dict_comp xs = [] \<longleftrightarrow> xs = []"
  using dict_comp_keys [of xs] by (metis image_is_empty set_empty)

lemma read_proxies_missing:
  "fs file_name = None \<Longrightarrow>
   read_proxies fs file_name w = (False, logging ERROR (ProxiesFileNotFound file_name) w)"
  by (simp add: read_proxies_def)

lemma read_proxies_found:
  "fs file_name = Some f \<Longrightarrow>
   fst (read_proxies fs file_name w) = (\<exists>line \<in> set f. strip line \<noteq> []) \<and>
   proxies (snd (read_proxies fs file_name w)) =
     dict_comp (map (\<lambda>line. (strip line, 0)) (filter (\<lambda>line. strip line \<noteq> []) f)) \<and>
   banned_proxies (snd (read_proxies fs file_name w)) = banned_proxies w"
  by (auto simp: read_proxies_def Let_def dict_comp_empty filter_empty_conv logging_def)

lemma search_terms_nonempty: "search_terms \<noteq> []"
  by (simp add: search_terms_def upt_rec)

text \<open>
  C7: \<open>read_proxies\<close> returns \<open>False\<close> exactly when the file is missing or has no line
  that is non-blank after stripping, and then \<open>main\<close> hands no search term to the thread
  pool; when it returns \<open>True\<close>, all search terms are handed over.
\<close>

theorem no_proxies_loaded_dispatches_nothing:
  "(fst (read_proxies fs file_name w) = False \<longleftrightarrow>
      fs file_name = None \<or> (\<exists>f. fs file_name = Some f \<and> (\<forall>line \<in> set f. strip line = []))) \<and>
   (fst (read_proxies fs ''proxies.txt'' (ProxyManager_init w)) = False \<longrightarrow>
      fst (main fs cpu_count w) = []) \<and>
   (fst (read_proxies fs ''proxies.txt'' (ProxyManager_init w)) = True \<longrightarrow>
      fst (main fs cpu_count w) = search_terms)"
proof (intro conjI impI)
  show "fst (read_proxies fs file_name w) = False \<longleftrightarrow>
      fs file_name = None \<or> (\<exists>f. fs file_name = Some f \<and> (\<forall>line \<in> set f. strip line = []))"
  proof (cases "fs file_name")
    case None
    then show ?thesis by (simp add: read_proxies_missing)
  next
    case (Some f)
    then show ?thesis using read_proxies_found [of fs file_name f w] by auto
  qed
next
  assume "fst (read_proxies fs ''proxies.txt'' (ProxyManager_init w)) = False"
  then show "fst (main fs cpu_count w) = []"
    by (cases "read_proxies fs ''proxies.txt'' (ProxyManager_init w)") (simp add: main_def)
next
  assume "fst (read_proxies fs ''proxies.txt'' (ProxyManager_init w)) = True"
  then show "fst (main fs cpu_count w) = search_terms"
    by (cases "read_proxies fs ''proxies.txt'' (ProxyManager_init w)") (simp add: main_def)
qed

theorem no_proxies_loaded_dispatches_nothing_witness:
  "fs_blank ''proxies.txt'' = Some [[CHR 0x0A], ''  '' @ [CHR 0x0A]] \<and>
   fst (read_proxies fs_blank ''proxies.txt'' (ProxyManager_init world0)) = False \<and>
   fst (main fs_blank 4 world0) = [] \<and>
   fst (read_proxies (\<lambda>name. None) ''proxies.txt'' (ProxyManager_init world0)) = False \<and>
   fst (main (\<lambda>name. None) 4 world0) = [] \<and>
   fst (read_proxies fs_endpoints ''proxies.txt'' (ProxyManager_init world0)) = True \<and>
   fst (main fs_endpoints 4 world0) = search_terms"
proof -
  have a: "fs_blank ''proxies.txt'' = Some [[CHR 0x0A], ''  '' @ [CHR 0x0A]]"
    by (simp add: fs_blank_def)
  have b: "\<forall>line \<in> set [[CHR 0x0A], ''  '' @ [CHR 0x0A]]. strip line = []"
    by (simp add: strip_def isspace_def)
  have c: "fst (read_proxies fs_endpoints ''proxies.txt'' (ProxyManager_init world0)) = True"
    by (simp add: read_proxies_def fs_endpoints_def strip_def isspace_def dict_comp_def
          ProxyManager_init_def)
  show ?thesis
    using no_proxies_loaded_dispatches_nothing [of fs_blank "''proxies.txt''" "ProxyManager_init world0" 4]
      no_proxies_loaded_dispatches_nothing [of fs_blank "''proxies.txt''" world0 4]
      no_proxies_loaded_dispatches_nothing [of "\<lambda>name. None" "''proxies.txt''" "ProxyManager_init world0" 4]
      no_proxies_loaded_dispatches_nothing [of "\<lambda>name. None" "''proxies.txt''" world0 4]
      no_proxies_loaded_dispatches_nothing [of fs_endpoints "''proxies.txt''" world0 4]
      a b c
    by simp
qed

text \<open>
  C10: for a file that exists, the keys of the pool built by \<open>read_proxies\<close> are the
  stripped non-blank lines, each once however often it occurs, and every proxy starts with
  last use 0.
\<close>

theorem read_proxies_builds_pool:
  assumes "fs file_name = Some f"
  shows "distinct (map fst (proxies (snd (read_proxies fs file_name w)))) \<and>
     fst ` set (proxies (snd (read_proxies fs file_name w))) =
       {strip line |line. line \<in> set f \<and> strip line \<noteq> []} \<and>
     (\<forall>(proxy, last_used) \<in> set (proxies (snd (read_proxies fs file_name w))). last_used = 0)"
proof -
  let ?kvs = "map (\<lambda>line. (strip line, 0::real)) (filter (\<lambda>line. strip line \<noteq> []) f)"
  have p: "proxies (snd (read_proxies fs file_name w)) = dict_comp ?kvs"
    using read_proxies_found [of fs file_name f w] assms by simp
  have "snd ` set (dict_comp ?kvs) \<subseteq> snd ` set ?kvs" by (rule dict_comp_values)
  also have "\<dots> \<subseteq> {0}" by auto
  finally have v: "\<forall>(proxy, last_used) \<in> set (dict_comp ?kvs). last_used = 0" by force
  have k: "fst ` set (dict_comp ?kvs) = {strip line |line. line \<in> set f \<and> strip line \<noteq> []}"
    unfolding dict_comp_keys by force
  show ?thesis unfolding p using v k dict_comp_distinct_keys [of ?kvs] by blast
qed

theorem read_proxies_builds_pool_witness:
  "fs_endpoints ''proxies.txt'' =
     Some [''1.2.3.4:80'' @ [CHR 0x0A], [CHR 0x0A], ''  5.6.7.8:90 '' @ [CHR 0x0A], ''1.2.3.4:80''] \<and>
   proxies (snd (read_proxies fs_endpoints ''proxies.txt'' world0)) =
     [(''1.2.3.4:80'', 0), (''5.6.7.8:90'', 0)] \<and>
   distinct (map fst (proxies (snd (read_proxies fs_endpoints ''proxies.txt'' world0)))) \<and>
   fst ` set (proxies (snd (read_proxies fs_endpoints ''proxies.txt'' world0))) =
     {strip line |line.
        line \<in> set [''1.2.3.4:80'' @ [CHR 0x0A], [CHR 0x0A], ''  5.6.7.8:90 '' @ [CHR 0x0A], ''1.2.3.4:80''] \<and>
        strip line \<noteq> []}"
proof -
  have a: "fs_endpoints ''proxies.txt'' =
     Some [''1.2.3.4:80'' @ [CHR 0x0A], [CHR 0x0A], ''  5.6.7.8:90 '' @ [CHR 0x0A], ''1.2.3.4:80'']"
    by (simp add: fs_endpoints_def)
  have b: "proxies (snd (read_proxies fs_endpoints ''proxies.txt'' world0)) =
     [(''1.2.3.4:80'', 0), (''5.6.7.8:90'', 0)]"
    by (simp add: read_proxies_def fs_endpoints_def strip_def isspace_def dict_comp_def)
  let ?f = "[''1.2.3.4:80'' @ [CHR 0x0A], [CHR 0x0A], ''  5.6.7.8:90 '' @ [CHR 0x0A], ''1.2.3.4:80'']"
  from read_proxies_builds_pool [of fs_endpoints "''proxies.txt''" ?f world0] a b
  show ?thesis by blast
qed

section \<open>The keys of the pool stay distinct\<close>

text \<open>
  The hypothesis on the keys of \<open>proxies\<close> holds in every state the program reaches: the
  pool built by \<open>read_proxies\<close> has distinct keys, and no method of the manager breaks
  that.
\<close>

lemma read_proxies_distinct:
  "distinct (map fst (proxies w)) \<Longrightarrow> distinct (map fst (proxies (snd (read_proxies fs file_name w))))"
  by (cases "fs file_name") (simp_all add: read_proxies_def Let_def dict_comp_distinct_keys)

lemma get_proxy_body_distinct:
  "distinct (map fst (proxies w)) \<Longrightarrow> distinct (map fst (proxies (snd (get_proxy_body w))))"
  by (cases "available_proxies w")
     (simp_all add: get_proxy_body_fail get_proxy_body_ok distinct_update)

lemma update_proxy_distinct:
  "distinct (map fst (proxies w)) \<Longrightarrow> distinct (map fst (proxies (update_proxy proxy w)))"
  by (simp add: update_proxy_def distinct_update)

lemma ban_proxy_distinct:
  "distinct (map fst (banned_proxies w)) \<Longrightarrow> distinct (map fst (banned_proxies (ban_proxy proxy w)))"
  "proxies (ban_proxy proxy w) = proxies w"
  by (simp_all add: ban_proxy_def Let_def distinct_update)

section \<open>The task retry loop\<close>

lemma failures_of_record_failure:
  "failures_of (record_failure sv n e now tr) sv =
     failures_of tr sv @ [\<lparr>attempt = n, timestamp = now, error = str_exn e\<rparr>]"
  by (simp add: record_failure_def failures_of_def update_conv' split: option.splits)

lemma map_of_record_failure:
  "map_of (record_failure sv n e now tr) sv =
     Some (failures_of tr sv @ [\<lparr>attempt = n, timestamp = now, error = str_exn e\<rparr>])"
  by (simp add: record_failure_def failures_of_def update_conv' split: option.splits)

lemma failures_of_record_failure_other:
  "sv' \<noteq> sv \<Longrightarrow> failures_of (record_failure sv n e now tr) sv' = failures_of tr sv'"
  by (simp add: record_failure_def failures_of_def update_conv' split: option.splits)

lemma foldl_logging_fields:
  "outside (foldl (\<lambda>w' f. logging ERROR (g f) w') w fs) = outside w"
  "proxies (foldl (\<lambda>w' f. logging ERROR (g f) w') w fs) = proxies w"
  "banned_proxies (foldl (\<lambda>w' f. logging ERROR (g f) w') w fs) = banned_proxies w"
  "clock (foldl (\<lambda>w' f. logging ERROR (g f) w') w fs) = clock w"
  by (induction fs arbitrary: w) simp_all

lemma log_failure_history_fields [simp]:
  "outside (log_failure_history tries sv tr w) = outside w"
  "proxies (log_failure_history tries sv tr w) = proxies w"
  "banned_proxies (log_failure_history tries sv tr w) = banned_proxies w"
  "clock (log_failure_history tries sv tr w) = clock w"
  by (simp_all add: log_failure_history_def Let_def foldl_logging_fields)

lemma for_attempts_fail_step:
  assumes "func sv w = (Inl e, w1)"
  shows "for_attempts tries func sv (n # rest) (tr, w) =
     (if n = tries
      then (Inl e, record_failure sv (n + 1) e (clock w1) tr,
            log_failure_history tries sv (record_failure sv (n + 1) e (clock w1) tr) w1)
      else for_attempts tries func sv rest
             (record_failure sv (n + 1) e (clock w1) tr,
              logging WARNING (AttemptFailedRetrying (n + 1) (tries + 1) sv) w1))"
  using assms by (simp add: Let_def)

lemma for_attempts_all_fail:
  assumes fail: "\<forall>w. \<exists>e w1. func sv w = (Inl e, w1) \<and> outside w1 = Suc (outside w)"
  shows "tries - k = m \<Longrightarrow> k \<le> tries \<Longrightarrow>
     \<exists>e tr' w' new.
       for_attempts tries func sv [k..<tries + 1] (tr, w) = (Inl e, tr', w') \<and>
       outside w' = outside w + (tries + 1 - k) \<and>
       failures_of tr' sv = failures_of tr sv @ new \<and>
       map attempt new = [k + 1..<tries + 2] \<and>
       error (last new) = str_exn e"
proof (induction m arbitrary: k tr w)
  case 0
  then have k: "k = tries" by simp
  from fail obtain e w1 where f: "func sv w = (Inl e, w1)" and o: "outside w1 = Suc (outside w)"
    by blast
  let ?tr1 = "record_failure sv (tries + 1) e (clock w1) tr"
  have run: "for_attempts tries func sv [tries..<tries + 1] (tr, w) =
          (Inl e, ?tr1, log_failure_history tries sv ?tr1 w1)"
    using for_attempts_fail_step [of func sv w e w1 tries tries "[]" tr] f by simp
  show ?case unfolding k
  proof (intro exI conjI)
    show "for_attempts tries func sv [tries..<tries + 1] (tr, w) =
          (Inl e, ?tr1, log_failure_history tries sv ?tr1 w1)" by (rule run)
    show "outside (log_failure_history tries sv ?tr1 w1) = outside w + (tries + 1 - tries)"
      using o by simp
    show "failures_of ?tr1 sv =
          failures_of tr sv @ [\<lparr>attempt = tries + 1, timestamp = clock w1, error = str_exn e\<rparr>]"
      by (rule failures_of_record_failure)
    show "map attempt [\<lparr>attempt = tries + 1, timestamp = clock w1, error = str_exn e\<rparr>] =
          [tries + 1..<tries + 2]" by simp
    show "error (last [\<lparr>attempt = tries + 1, timestamp = clock w1, error = str_exn e\<rparr>]) = str_exn e"
      by simp
  qed
next
  case (Suc m)
  then have k: "k < tries" and m: "tries - (k + 1) = m" and k1: "k + 1 \<le> tries" by simp_all
  from fail obtain e1 w1 where f: "func sv w = (Inl e1, w1)" and o: "outside w1 = Suc (outside w)"
    by blast
  let ?tr1 = "record_failure sv (k + 1) e1 (clock w1) tr"
  let ?w1 = "logging WARNING (AttemptFailedRetrying (k + 1) (tries + 1) sv) w1"
  have up: "[k..<tries + 1] = k # [k + 1..<tries + 1]" using k by (simp add: upt_conv_Cons)
  have step: "for_attempts tries func sv [k..<tries + 1] (tr, w) =
              for_attempts tries func sv [k + 1..<tries + 1] (?tr1, ?w1)"
    unfolding up using for_attempts_fail_step [of func sv w e1 w1 tries k "[k + 1..<tries + 1]" tr] f k by simp
  from Suc.IH [OF m k1, of ?tr1 ?w1] obtain e tr' w' new where
    run: "for_attempts tries func sv [k + 1..<tries + 1] (?tr1, ?w1) = (Inl e, tr', w')"
    and out: "outside w' = outside ?w1 + (tries + 1 - (k + 1))"
    and fo: "failures_of tr' sv = failures_of ?tr1 sv @ new"
    and at: "map attempt new = [k + 1 + 1..<tries + 2]"
    and er: "error (last new) = str_exn e" by blast
  have "[k + 1 + 1..<tries + 2] \<noteq> []" using k by simp
  then have ne: "new \<noteq> []" using at by auto
  let ?new = "\<lparr>attempt = k + 1, timestamp = clock w1, error = str_exn e1\<rparr> # new"
  show ?case
  proof (intro exI conjI)
    show "for_attempts tries func sv [k..<tries + 1] (tr, w) = (Inl e, tr', w')"
      using step run by simp
    show "outside w' = outside w + (tries + 1 - k)" using out o k by simp
    show "failures_of tr' sv = failures_of tr sv @ ?new"
      using fo by (simp add: failures_of_record_failure)
    show "map attempt ?new = [k + 1..<tries + 2]"
      using at k by (simp add: upt_conv_Cons)
    show "error (last ?new) = str_exn e" using er ne by simp
  qed
qed

lemma counted_fails:
  assumes "\<forall>w. \<exists>e w1. func sv w = (Inl e, w1)"
  shows "\<forall>w. \<exists>e w1. counted func sv w = (Inl e, w1) \<and> outside w1 = Suc (outside w)"
proof
  fix w
  from assms obtain e w1 where "func sv w = (Inl e, w1)" by blast
  then have "counted func sv w = (Inl e, w1\<lparr>outside := Suc (outside w)\<rparr>)"
    by (simp add: counted_def)
  then show "\<exists>e w1. counted func sv w = (Inl e, w1) \<and> outside w1 = Suc (outside w)" by simp
qed

lemma one_to_eleven: "[0 + 1..<10 + 2] = [1, 2, 3, 4, 5, 6, 7, 8, 9, 10, 11::nat]"
  by code_simp

text \<open>
  C4: a task body that fails whenever it is run, wrapped by \<open>retry_with_tracking\<close> with 10
  retries and started on a search value without earlier failures, is run 11 times; the
  tracker then holds 11 entries for the search value, numbered 1 to 11 in this order; and
  the error of the last run is what the wrapper raises.
\<close>

theorem always_failing_task_eleven_attempts:
  assumes fail: "\<forall>w. \<exists>e w1. func search_value w = (Inl e, w1)"
    and fresh: "map_of tr search_value = None"
  shows "\<exists>e tr' w' entries.
     retry_with_tracking 10 (counted func) search_value (tr, w) = (Inl e, tr', w') \<and>
     outside w' = outside w + 11 \<and>
     map_of tr' search_value = Some entries \<and>
     map attempt entries = [1, 2, 3, 4, 5, 6, 7, 8, 9, 10, 11] \<and>
     error (last entries) = str_exn e"
proof -
  have cf: "\<forall>w. \<exists>e w1. counted func search_value w = (Inl e, w1) \<and> outside w1 = Suc (outside w)"
    using counted_fails [of func search_value] fail by blast
  from for_attempts_all_fail [where func = "counted func" and sv = search_value and tries = 10
      and k = 0 and m = 10 and tr = tr and w = w] cf
  obtain e tr' w' new where
    run: "for_attempts 10 (counted func) search_value [0..<10 + 1] (tr, w) = (Inl e, tr', w')"
    and out: "outside w' = outside w + (10 + 1 - 0)"
    and fo: "failures_of tr' search_value = failures_of tr search_value @ new"
    and at: "map attempt new = [0 + 1..<10 + 2]"
    and er: "error (last new) = str_exn e" by auto
  have new: "failures_of tr' search_value = new" using fo fresh by (simp add: failures_of_def)
  have "new \<noteq> []" using at unfolding one_to_eleven by auto
  then have look: "map_of tr' search_value = Some new"
    using new by (cases "map_of tr' search_value") (simp_all add: failures_of_def)
  show ?thesis
  proof (intro exI conjI)
    show "retry_with_tracking 10 (counted func) search_value (tr, w) = (Inl e, tr', w')"
      using run by (simp add: retry_with_tracking_def)
    show "outside w' = outside w + 11" using out by simp
    show "map_of tr' search_value = Some new" by (rule look)
    show "map attempt new = [1, 2, 3, 4, 5, 6, 7, 8, 9, 10, 11]" using at one_to_eleven by simp
    show "error (last new) = str_exn e" by (rule er)
  qed
qed

theorem always_failing_task_eleven_attempts_witness:
  "(\<forall>w. \<exists>e w1. always_failing ''nana0'' w = (Inl e, w1)) \<and>
   map_of ([] :: RetryTracker) ''nana0'' = None \<and>
   (\<exists>e tr' w' entries.
     retry_with_tracking 10 (counted always_failing) ''nana0'' ([], counter_world) = (Inl e, tr', w') \<and>
     outside w' = outside counter_world + 11 \<and>
     map_of tr' ''nana0'' = Some entries \<and>
     map attempt entries = [1, 2, 3, 4, 5, 6, 7, 8, 9, 10, 11] \<and>
     error (last entries) = str_exn e)"
proof -
  have h1: "\<forall>w. \<exists>e w1. always_failing ''nana0'' w = (Inl e, w1)"
    by (simp add: always_failing_def)
  have h2: "map_of ([] :: RetryTracker) ''nana0'' = None" by simp
  show ?thesis
    using always_failing_task_eleven_attempts [where func = always_failing
        and search_value = "''nana0''" and tr = "[]" and w = counter_world] h1 h2
    by blast
qed

lemma get_proxy_exhausted_log:
  assumes "get_proxy w = (Inl e, w1)"
  shows "length (filter acquisition_failed (log w1)) = length (filter acquisition_failed (log w)) + 3"
  using get_proxy_exhausted [OF assms] by auto

text \<open>
  C6: when \<open>get_proxy\<close> gives up, its three failed acquisitions (three log lines) reach the
  task loop as one failure: the task body returns that error without doing anything else,
  the loop uses up one attempt \<open>n\<close>, and one entry, numbered \<open>n + 1\<close>, is appended for
  the search value.
\<close>

theorem acquisition_exhaustion_is_one_failure:
  assumes "get_proxy w = (Inl e, w1)"
  shows "length (filter acquisition_failed (log w1)) = length (filter acquisition_failed (log w)) + 3 \<and>
     get_serp_results_body ext search_value w = (Inl e, w1) \<and>
     for_attempts tries (get_serp_results_body ext) search_value (n # rest) (tr, w) =
       (if n = tries
        then (Inl e, record_failure search_value (n + 1) e (clock w1) tr,
              log_failure_history tries search_value
                (record_failure search_value (n + 1) e (clock w1) tr) w1)
        else for_attempts tries (get_serp_results_body ext) search_value rest
               (record_failure search_value (n + 1) e (clock w1) tr,
                logging WARNING (AttemptFailedRetrying (n + 1) (tries + 1) search_value) w1)) \<and>
     failures_of (record_failure search_value (n + 1) e (clock w1) tr) search_value =
       failures_of tr search_value @ [\<lparr>attempt = n + 1, timestamp = clock w1, error = str_exn e\<rparr>]"
proof (intro conjI)
  show "length (filter acquisition_failed (log w1)) = length (filter acquisition_failed (log w)) + 3"
    by (rule get_proxy_exhausted_log [OF assms])
  show body: "get_serp_results_body ext search_value w = (Inl e, w1)"
    using assms by (simp add: get_serp_results_body_def)
  show "for_attempts tries (get_serp_results_body ext) search_value (n # rest) (tr, w) =
       (if n = tries
        then (Inl e, record_failure search_value (n + 1) e (clock w1) tr,
              log_failure_history tries search_value
                (record_failure search_value (n + 1) e (clock w1) tr) w1)
        else for_attempts tries (get_serp_results_body ext) search_value rest
               (record_failure search_value (n + 1) e (clock w1) tr,
                logging WARNING (AttemptFailedRetrying (n + 1) (tries + 1) search_value) w1))"
    using for_attempts_fail_step [of "get_serp_results_body ext" search_value w e w1 tries n rest tr] body
    by simp
  show "failures_of (record_failure search_value (n + 1) e (clock w1) tr) search_value =
       failures_of tr search_value @ [\<lparr>attempt = n + 1, timestamp = clock w1, error = str_exn e\<rparr>]"
    by (rule failures_of_record_failure)
qed

theorem acquisition_exhaustion_is_one_failure_witness:
  "get_proxy pool_all_banned =
     (Inl (ValueError ''No available proxies, retrying...''),
      pool_all_banned\<lparr>clock := 400,
        log := [(ERROR, NoAvailableProxiesRetryingIn 300), (INFO, AttemptFailedRetryingIn 1 300),
                (ERROR, NoAvailableProxiesRetryingIn 0), (INFO, AttemptFailedRetryingIn 2 0),
                (ERROR, NoAvailableProxiesRetryingIn 0)]\<rparr>) \<and>
   get_serp_results_body ext_list_response ''nana0'' pool_all_banned =
     (Inl (ValueError ''No available proxies, retrying...''),
      pool_all_banned\<lparr>clock := 400,
        log := [(ERROR, NoAvailableProxiesRetryingIn 300), (INFO, AttemptFailedRetryingIn 1 300),
                (ERROR, NoAvailableProxiesRetryingIn 0), (INFO, AttemptFailedRetryingIn 2 0),
                (ERROR, NoAvailableProxiesRetryingIn 0)]\<rparr>) \<and>
   failures_of (record_failure ''nana0'' 1 (ValueError ''No available proxies, retrying...'') 400 [])
       ''nana0'' =
     [\<lparr>attempt = 1, timestamp = 400, error = ''No available proxies, retrying...''\<rparr>]"
proof -
  let ?e = "ValueError ''No available proxies, retrying...''"
  let ?w1 = "pool_all_banned\<lparr>clock := 400,
        log := [(ERROR, NoAvailableProxiesRetryingIn 300), (INFO, AttemptFailedRetryingIn 1 300),
                (ERROR, NoAvailableProxiesRetryingIn 0), (INFO, AttemptFailedRetryingIn 2 0),
                (ERROR, NoAvailableProxiesRetryingIn 0)]\<rparr>"
  have g: "get_proxy pool_all_banned = (Inl ?e, ?w1)"
    by (simp add: get_proxy_def retry_loop_unfold get_proxy_body_def available_proxies_def
          dict_comp_def is_unbanned_def pool_all_banned_def get_dynamic_delay_def logging_def
          time_sleep_def)
  have c: "clock ?w1 = 400" by simp
  have f: "failures_of [] ''nana0'' = []" by (simp add: failures_of_def)
  from acquisition_exhaustion_is_one_failure [OF g, of ext_list_response "''nana0''" 10 0 "[]" "[]"]
  show ?thesis using g c f by simp
qed

section \<open>The task body\<close>

text \<open>
  When the search request is answered with JSON that is not a dictionary, the task body bans
  the proxy it used, for 180 seconds from then, and raises the error
  \<open>Unexpected response format\<close>; while attempts remain, the task loop records the error
  and goes on to the next attempt.
\<close>

lemma malformed_response_bans_proxy:
  assumes acq: "get_proxy w = (Inr (Some (proxy, proxy_key)), w1)"
    and keys: "get_access_keys ext proxy w1 = (Inr (client_id, client_secret), w2)"
    and nonempty: "client_id \<noteq> []" "client_secret \<noteq> []"
    and post: "requests_post ext search_value (client_id, client_secret) proxy (outside w2) =
                 (Inr (Inr json_response), out)"
    and shape: "\<not> isinstance_dict json_response"
  shows "get_serp_results_body ext search_value w =
       (Inl (ValueError ''Unexpected response format, retrying...''),
        ban_proxy proxy_key (w2\<lparr>outside := out\<rparr>)) \<and>
     map_of (banned_proxies (ban_proxy proxy_key (w2\<lparr>outside := out\<rparr>))) proxy_key =
       Some (clock w2 + 180) \<and>
     (n < tries \<longrightarrow>
        for_attempts tries (get_serp_results_body ext) search_value (n # rest) (tr, w) =
          for_attempts tries (get_serp_results_body ext) search_value rest
            (record_failure search_value (n + 1)
               (ValueError ''Unexpected response format, retrying...'') (clock w2) tr,
             logging WARNING (AttemptFailedRetrying (n + 1) (tries + 1) search_value)
               (ban_proxy proxy_key (w2\<lparr>outside := out\<rparr>))))"
proof (intro conjI impI)
  show body: "get_serp_results_body ext search_value w =
       (Inl (ValueError ''Unexpected response format, retrying...''),
        ban_proxy proxy_key (w2\<lparr>outside := out\<rparr>))"
    using assms by (simp add: get_serp_results_body_def)
  show "map_of (banned_proxies (ban_proxy proxy_key (w2\<lparr>outside := out\<rparr>))) proxy_key =
       Some (clock w2 + 180)"
    by (simp add: ban_proxy_def Let_def update_conv')
  assume "n < tries"
  then show "for_attempts tries (get_serp_results_body ext) search_value (n # rest) (tr, w) =
          for_attempts tries (get_serp_results_body ext) search_value rest
            (record_failure search_value (n + 1)
               (ValueError ''Unexpected response format, retrying...'') (clock w2) tr,
             logging WARNING (AttemptFailedRetrying (n + 1) (tries + 1) search_value)
               (ban_proxy proxy_key (w2\<lparr>outside := out\<rparr>)))"
    using for_attempts_fail_step [of "get_serp_results_body ext" search_value w
        "ValueError ''Unexpected response format, retrying...''"
        "ban_proxy proxy_key (w2\<lparr>outside := out\<rparr>)" tries n rest tr] body
    by (simp add: ban_proxy_def Let_def)
qed

lemma malformed_response_bans_proxy_example:
  "get_proxy pool_abcd =
     (Inr (Some ([(''http'', ''http://c''), (''https'', ''http://c'')], ''c'')),
      pool_abcd\<lparr>proxies := [(''a'', 5), (''b'', 0), (''c'', 50), (''d'', 0)]\<rparr>) \<and>
   \<not> isinstance_dict (JList []) \<and>
   get_serp_results_body ext_list_response ''nana0'' pool_abcd =
     (Inl (ValueError ''Unexpected response format, retrying...''),
      ban_proxy ''c'' (pool_abcd\<lparr>proxies := [(''a'', 5), (''b'', 0), (''c'', 50), (''d'', 0)]\<rparr>)) \<and>
   map_of (banned_proxies
       (ban_proxy ''c'' (pool_abcd\<lparr>proxies := [(''a'', 5), (''b'', 0), (''c'', 50), (''d'', 0)]\<rparr>))) ''c'' =
     Some 230"
proof -
  let ?h = "[(''http'', ''http://c''), (''https'', ''http://c'')]"
  let ?w1 = "pool_abcd\<lparr>proxies := [(''a'', 5), (''b'', 0), (''c'', 50), (''d'', 0)]\<rparr>"
  have g: "get_proxy pool_abcd = (Inr (Some (?h, ''c'')), ?w1)"
    by (simp add: get_proxy_def retry_loop_unfold get_proxy_body_def available_proxies_def
          dict_comp_def is_unbanned_def pool_abcd_def)
  have k: "get_access_keys ext_list_response ?h ?w1 = (Inr (''id'', ''secret''), ?w1)"
    by (simp add: get_access_keys_def ext_list_response_def)
  have p: "requests_post ext_list_response ''nana0'' (''id'', ''secret'') ?h (outside ?w1) =
             (Inr (Inr (JList [])), ())"
    by (simp add: ext_list_response_def)
  have s: "\<not> isinstance_dict (JList [])" by simp
  have o: "?w1\<lparr>outside := ()\<rparr> = ?w1" by simp
  have c: "clock ?w1 = 50" by (simp add: pool_abcd_def)
  from malformed_response_bans_proxy [OF g k _ _ p s, of 0 10 "[]" "[]"] g s o c
  show ?thesis by simp
qed

text \<open>
  No call of \<open>get_proxy\<close> or \<open>get_access_keys\<close> touches the bans.
\<close>

lemma get_proxy_body_banned:
  "get_proxy_body v = (r, v1) \<Longrightarrow> banned_proxies v1 = banned_proxies v"
proof (cases "available_proxies v")
  case Nil
  assume "get_proxy_body v = (r, v1)"
  then show ?thesis using get_proxy_body_fail [OF Nil] by auto
next
  case (Cons kv rest)
  assume "get_proxy_body v = (r, v1)"
  then show ?thesis using get_proxy_body_ok [OF Cons] by auto
qed

lemma get_proxy_banned:
  assumes "get_proxy w = (r, w1)"
  shows "banned_proxies w1 = banned_proxies w"
proof -
  obtain r1 v1 where b1: "get_proxy_body w = (r1, v1)" by (cases "get_proxy_body w")
  note k1 = get_proxy_body_banned [OF b1]
  let ?u1 = "time_sleep (get_dynamic_delay v1)
               (logging INFO (AttemptFailedRetryingIn 1 (get_dynamic_delay v1)) v1)"
  obtain r2 v2 where b2: "get_proxy_body ?u1 = (r2, v2)" by (cases "get_proxy_body ?u1")
  note k2 = get_proxy_body_banned [OF b2]
  let ?u2 = "time_sleep (get_dynamic_delay v2)
               (logging INFO (AttemptFailedRetryingIn 2 (get_dynamic_delay v2)) v2)"
  obtain r3 v3 where b3: "get_proxy_body ?u2 = (r3, v3)" by (cases "get_proxy_body ?u2")
  note k3 = get_proxy_body_banned [OF b3]
  have "w1 = v1 \<or> w1 = v2 \<or> w1 = v3"
    using assms b1 b2 b3
    by (auto simp: get_proxy_def retry_loop_unfold split: sum.splits)
  then show ?thesis using k1 k2 k3 by auto
qed

lemma get_access_keys_banned:
  "get_access_keys ext proxy w1 = (r, w2) \<Longrightarrow> banned_proxies w2 = banned_proxies w1"
  by (auto simp: get_access_keys_def split: prod.splits sum.splits exn.splits option.splits)

text \<open>
  C8 does not hold of the code for an answer that is not JSON at all, the captcha page the
  comment above the test speaks of (\<open>Ensure response is valid JSON (no captcha message)\<close>).
  The request returns its response, \<open>response.json()\<close> raises on it, and the test for a
  dictionary with its call of \<open>ban_proxy\<close> is never reached: the error leaves the task
  body with the bans as they were at the start of the attempt, the proxy used among them or
  not as before. The task loop records the error and retries, with the same proxy free to be
  selected again. Below, the answer is a page that is not JSON and the proxy \<open>c\<close> that
  carried the request has no ban afterwards.
\<close>

theorem undecodable_response_not_banned:
  assumes acq: "get_proxy w = (Inr (Some (proxy, proxy_key)), w1)"
    and keys: "get_access_keys ext proxy w1 = (Inr (client_id, client_secret), w2)"
    and nonempty: "client_id \<noteq> []" "client_secret \<noteq> []"
    and post: "requests_post ext search_value (client_id, client_secret) proxy (outside w2) =
                 (Inr (Inl e), out)"
  shows "get_serp_results_body ext search_value w = (Inl e, w2\<lparr>outside := out\<rparr>) \<and>
     banned_proxies (w2\<lparr>outside := out\<rparr>) = banned_proxies w \<and>
     map_of (banned_proxies (snd (get_serp_results_body ext search_value w))) proxy_key =
       map_of (banned_proxies w) proxy_key \<and>
     (n < tries \<longrightarrow>
        for_attempts tries (get_serp_results_body ext) search_value (n # rest) (tr, w) =
          for_attempts tries (get_serp_results_body ext) search_value rest
            (record_failure search_value (n + 1) e (clock w2) tr,
             logging WARNING (AttemptFailedRetrying (n + 1) (tries + 1) search_value)
               (w2\<lparr>outside := out\<rparr>)))"
proof -
  have body: "get_serp_results_body ext search_value w = (Inl e, w2\<lparr>outside := out\<rparr>)"
    using assms by (simp add: get_serp_results_body_def)
  have same: "banned_proxies (w2\<lparr>outside := out\<rparr>) = banned_proxies w"
    using get_proxy_banned [OF acq] get_access_keys_banned [OF keys] by simp
  have loop: "for_attempts tries (get_serp_results_body ext) search_value (n # rest) (tr, w) =
          for_attempts tries (get_serp_results_body ext) search_value rest
            (record_failure search_value (n + 1) e (clock w2) tr,
             logging WARNING (AttemptFailedRetrying (n + 1) (tries + 1) search_value)
               (w2\<lparr>outside := out\<rparr>))" if "n < tries"
    using for_attempts_fail_step [of "get_serp_results_body ext" search_value w e
        "w2\<lparr>outside := out\<rparr>" tries n rest tr] body that
    by simp
  show ?thesis using body same loop by simp
qed

theorem undecodable_response_not_banned_witness:
  "get_proxy pool_abcd =
     (Inr (Some ([(''http'', ''http://c''), (''https'', ''http://c'')], ''c'')),
      pool_abcd\<lparr>proxies := [(''a'', 5), (''b'', 0), (''c'', 50), (''d'', 0)]\<rparr>) \<and>
   get_serp_results_body ext_html_response ''nana0'' pool_abcd =
     (Inl (JSONDecodeError ''Expecting value: line 1 column 1 (char 0)''),
      pool_abcd\<lparr>proxies := [(''a'', 5), (''b'', 0), (''c'', 50), (''d'', 0)]\<rparr>) \<and>
   banned_proxies (snd (get_serp_results_body ext_html_response ''nana0'' pool_abcd)) =
     [(''b'', 100), (''d'', 10)] \<and>
   map_of (banned_proxies (snd (get_serp_results_body ext_html_response ''nana0'' pool_abcd))) ''c'' =
     None"
proof -
  let ?h = "[(''http'', ''http://c''), (''https'', ''http://c'')]"
  let ?w1 = "pool_abcd\<lparr>proxies := [(''a'', 5), (''b'', 0), (''c'', 50), (''d'', 0)]\<rparr>"
  let ?e = "JSONDecodeError ''Expecting value: line 1 column 1 (char 0)''"
  have g: "get_proxy pool_abcd = (Inr (Some (?h, ''c'')), ?w1)"
    by (simp add: get_proxy_def retry_loop_unfold get_proxy_body_def available_proxies_def
          dict_comp_def is_unbanned_def pool_abcd_def)
  have k: "get_access_keys ext_html_response ?h ?w1 = (Inr (''id'', ''secret''), ?w1)"
    by (simp add: get_access_keys_def ext_html_response_def)
  have p: "requests_post ext_html_response ''nana0'' (''id'', ''secret'') ?h (outside ?w1) =
             (Inr (Inl ?e), ())"
    by (simp add: ext_html_response_def)
  have o: "?w1\<lparr>outside := ()\<rparr> = ?w1" by simp
  have b: "banned_proxies pool_abcd = [(''b'', 100), (''d'', 10)]" by (simp add: pool_abcd_def)
  from undecodable_response_not_banned [OF g k _ _ p, of 0 10 "[]" "[]"] g o b
  show ?thesis by simp
qed

end
